theory Spec2Isabelle
  imports Main "HOL-Library.Code_Target_Nat"
begin

section \<open>Python strings\<close>

text \<open>
  A Python \<open>str\<close> is a sequence of Unicode code points, and is modelled as the list of
  their numbers: \<open>length\<close> counts code points, as Python's \<open>len\<close> does. A literal of the
  source is written \<open>str ''...''\<close>, and a single character \<open>ch CHR ''x''\<close>. The character
  classes \<open>\d\<close>, \<open>\s\<close> and \<open>\w\<close> of the \<open>re\<close> module, which on a \<open>str\<close> pattern are those of
  \<open>str.isdecimal\<close>, of \<open>str.isspace\<close> and of \<open>str.isalnum\<close> with the underscore, are
  tables of ranges of code points, in increasing order, of Unicode 14.0.0 (the database
  of Python 3.11).
\<close>

type_synonym ustring = "nat list"

abbreviation ch :: "char \<Rightarrow> nat" where
  "ch c \<equiv> of_char c"

definition str :: "string \<Rightarrow> ustring" where
  "str s = map of_char s"

fun in_ranges :: "nat \<Rightarrow> (nat \<times> nat) list \<Rightarrow> bool" where
  \<comment> \<open>membership in a table of ranges listed in increasing order\<close>
  "in_ranges c [] = False"
| "in_ranges c ((lo, hi) # rs) =
     (if c < lo then False else if c \<le> hi then True else in_ranges c rs)"

fun range_start :: "nat \<Rightarrow> (nat \<times> nat) list \<Rightarrow> nat option" where
  \<comment> \<open>the first code point of the range that holds \<open>c\<close>\<close>
  "range_start c [] = None"
| "range_start c ((lo, hi) # rs) =
     (if c < lo then None else if c \<le> hi then Some lo else range_start c rs)"

definition decimal_ranges :: "(nat \<times> nat) list" where
  \<comment> \<open>the decimal digits: every range starts at a digit zero and holds the ten digits of
      a script in order (the range at \<open>0x1D7CE\<close> holds five such sets)\<close>
  "decimal_ranges =
     [(0x0030, 0x0039), (0x0660, 0x0669), (0x06F0, 0x06F9), (0x07C0, 0x07C9), (0x0966, 0x096F),
      (0x09E6, 0x09EF), (0x0A66, 0x0A6F), (0x0AE6, 0x0AEF), (0x0B66, 0x0B6F), (0x0BE6, 0x0BEF),
      (0x0C66, 0x0C6F), (0x0CE6, 0x0CEF), (0x0D66, 0x0D6F), (0x0DE6, 0x0DEF), (0x0E50, 0x0E59),
      (0x0ED0, 0x0ED9), (0x0F20, 0x0F29), (0x1040, 0x1049), (0x1090, 0x1099), (0x17E0, 0x17E9),
      (0x1810, 0x1819), (0x1946, 0x194F), (0x19D0, 0x19D9), (0x1A80, 0x1A89), (0x1A90, 0x1A99),
      (0x1B50, 0x1B59), (0x1BB0, 0x1BB9), (0x1C40, 0x1C49), (0x1C50, 0x1C59), (0xA620, 0xA629),
      (0xA8D0, 0xA8D9), (0xA900, 0xA909), (0xA9D0, 0xA9D9), (0xA9F0, 0xA9F9), (0xAA50, 0xAA59),
      (0xABF0, 0xABF9), (0xFF10, 0xFF19), (0x104A0, 0x104A9), (0x10D30, 0x10D39), (0x11066, 0x1106F),
      (0x110F0, 0x110F9), (0x11136, 0x1113F), (0x111D0, 0x111D9), (0x112F0, 0x112F9), (0x11450, 0x11459),
      (0x114D0, 0x114D9), (0x11650, 0x11659), (0x116C0, 0x116C9), (0x11730, 0x11739), (0x118E0, 0x118E9),
      (0x11950, 0x11959), (0x11C50, 0x11C59), (0x11D50, 0x11D59), (0x11DA0, 0x11DA9), (0x16A60, 0x16A69),
      (0x16AC0, 0x16AC9), (0x16B50, 0x16B59), (0x1D7CE, 0x1D7FF), (0x1E140, 0x1E149), (0x1E2F0, 0x1E2F9),
      (0x1E950, 0x1E959), (0x1FBF0, 0x1FBF9)]"

definition space_ranges :: "(nat \<times> nat) list" where
  "space_ranges =
     [(0x0009, 0x000D), (0x001C, 0x0020), (0x0085, 0x0085), (0x00A0, 0x00A0), (0x1680, 0x1680),
      (0x2000, 0x200A), (0x2028, 0x2029), (0x202F, 0x202F), (0x205F, 0x205F), (0x3000, 0x3000)]"

definition word_ranges :: "(nat \<times> nat) list" where
  "word_ranges =
     [(0x0030, 0x0039), (0x0041, 0x005A), (0x005F, 0x005F), (0x0061, 0x007A), (0x00AA, 0x00AA),
      (0x00B2, 0x00B3), (0x00B5, 0x00B5), (0x00B9, 0x00BA), (0x00BC, 0x00BE), (0x00C0, 0x00D6),
      (0x00D8, 0x00F6), (0x00F8, 0x02C1), (0x02C6, 0x02D1), (0x02E0, 0x02E4), (0x02EC, 0x02EC),
      (0x02EE, 0x02EE), (0x0370, 0x0374), (0x0376, 0x0377), (0x037A, 0x037D), (0x037F, 0x037F),
      (0x0386, 0x0386), (0x0388, 0x038A), (0x038C, 0x038C), (0x038E, 0x03A1), (0x03A3, 0x03F5),
      (0x03F7, 0x0481), (0x048A, 0x052F), (0x0531, 0x0556), (0x0559, 0x0559), (0x0560, 0x0588),
      (0x05D0, 0x05EA), (0x05EF, 0x05F2), (0x0620, 0x064A), (0x0660, 0x0669), (0x066E, 0x066F),
      (0x0671, 0x06D3), (0x06D5, 0x06D5), (0x06E5, 0x06E6), (0x06EE, 0x06FC), (0x06FF, 0x06FF),
      (0x0710, 0x0710), (0x0712, 0x072F), (0x074D, 0x07A5), (0x07B1, 0x07B1), (0x07C0, 0x07EA),
      (0x07F4, 0x07F5), (0x07FA, 0x07FA), (0x0800, 0x0815), (0x081A, 0x081A), (0x0824, 0x0824),
      (0x0828, 0x0828), (0x0840, 0x0858), (0x0860, 0x086A), (0x0870, 0x0887), (0x0889, 0x088E),
      (0x08A0, 0x08C9), (0x0904, 0x0939), (0x093D, 0x093D), (0x0950, 0x0950), (0x0958, 0x0961),
      (0x0966, 0x096F), (0x0971, 0x0980), (0x0985, 0x098C), (0x098F, 0x0990), (0x0993, 0x09A8),
      (0x09AA, 0x09B0), (0x09B2, 0x09B2), (0x09B6, 0x09B9), (0x09BD, 0x09BD), (0x09CE, 0x09CE),
      (0x09DC, 0x09DD), (0x09DF, 0x09E1), (0x09E6, 0x09F1), (0x09F4, 0x09F9), (0x09FC, 0x09FC),
      (0x0A05, 0x0A0A), (0x0A0F, 0x0A10), (0x0A13, 0x0A28), (0x0A2A, 0x0A30), (0x0A32, 0x0A33),
      (0x0A35, 0x0A36), (0x0A38, 0x0A39), (0x0A59, 0x0A5C), (0x0A5E, 0x0A5E), (0x0A66, 0x0A6F),
      (0x0A72, 0x0A74), (0x0A85, 0x0A8D), (0x0A8F, 0x0A91), (0x0A93, 0x0AA8), (0x0AAA, 0x0AB0),
      (0x0AB2, 0x0AB3), (0x0AB5, 0x0AB9), (0x0ABD, 0x0ABD), (0x0AD0, 0x0AD0), (0x0AE0, 0x0AE1),
      (0x0AE6, 0x0AEF), (0x0AF9, 0x0AF9), (0x0B05, 0x0B0C), (0x0B0F, 0x0B10), (0x0B13, 0x0B28),
      (0x0B2A, 0x0B30), (0x0B32, 0x0B33), (0x0B35, 0x0B39), (0x0B3D, 0x0B3D), (0x0B5C, 0x0B5D),
      (0x0B5F, 0x0B61), (0x0B66, 0x0B6F), (0x0B71, 0x0B77), (0x0B83, 0x0B83), (0x0B85, 0x0B8A),
      (0x0B8E, 0x0B90), (0x0B92, 0x0B95), (0x0B99, 0x0B9A), (0x0B9C, 0x0B9C), (0x0B9E, 0x0B9F),
      (0x0BA3, 0x0BA4), (0x0BA8, 0x0BAA), (0x0BAE, 0x0BB9), (0x0BD0, 0x0BD0), (0x0BE6, 0x0BF2),
      (0x0C05, 0x0C0C), (0x0C0E, 0x0C10), (0x0C12, 0x0C28), (0x0C2A, 0x0C39), (0x0C3D, 0x0C3D),
      (0x0C58, 0x0C5A), (0x0C5D, 0x0C5D), (0x0C60, 0x0C61), (0x0C66, 0x0C6F), (0x0C78, 0x0C7E),
      (0x0C80, 0x0C80), (0x0C85, 0x0C8C), (0x0C8E, 0x0C90), (0x0C92, 0x0CA8), (0x0CAA, 0x0CB3),
      (0x0CB5, 0x0CB9), (0x0CBD, 0x0CBD), (0x0CDD, 0x0CDE), (0x0CE0, 0x0CE1), (0x0CE6, 0x0CEF),
      (0x0CF1, 0x0CF2), (0x0D04, 0x0D0C), (0x0D0E, 0x0D10), (0x0D12, 0x0D3A), (0x0D3D, 0x0D3D),
      (0x0D4E, 0x0D4E), (0x0D54, 0x0D56), (0x0D58, 0x0D61), (0x0D66, 0x0D78), (0x0D7A, 0x0D7F),
      (0x0D85, 0x0D96), (0x0D9A, 0x0DB1), (0x0DB3, 0x0DBB), (0x0DBD, 0x0DBD), (0x0DC0, 0x0DC6),
      (0x0DE6, 0x0DEF), (0x0E01, 0x0E30), (0x0E32, 0x0E33), (0x0E40, 0x0E46), (0x0E50, 0x0E59),
      (0x0E81, 0x0E82), (0x0E84, 0x0E84), (0x0E86, 0x0E8A), (0x0E8C, 0x0EA3), (0x0EA5, 0x0EA5),
      (0x0EA7, 0x0EB0), (0x0EB2, 0x0EB3), (0x0EBD, 0x0EBD), (0x0EC0, 0x0EC4), (0x0EC6, 0x0EC6),
      (0x0ED0, 0x0ED9), (0x0EDC, 0x0EDF), (0x0F00, 0x0F00), (0x0F20, 0x0F33), (0x0F40, 0x0F47),
      (0x0F49, 0x0F6C), (0x0F88, 0x0F8C), (0x1000, 0x102A), (0x103F, 0x1049), (0x1050, 0x1055),
      (0x105A, 0x105D), (0x1061, 0x1061), (0x1065, 0x1066), (0x106E, 0x1070), (0x1075, 0x1081),
      (0x108E, 0x108E), (0x1090, 0x1099), (0x10A0, 0x10C5), (0x10C7, 0x10C7), (0x10CD, 0x10CD),
      (0x10D0, 0x10FA), (0x10FC, 0x1248), (0x124A, 0x124D), (0x1250, 0x1256), (0x1258, 0x1258),
      (0x125A, 0x125D), (0x1260, 0x1288), (0x128A, 0x128D), (0x1290, 0x12B0), (0x12B2, 0x12B5),
      (0x12B8, 0x12BE), (0x12C0, 0x12C0), (0x12C2, 0x12C5), (0x12C8, 0x12D6), (0x12D8, 0x1310),
      (0x1312, 0x1315), (0x1318, 0x135A), (0x1369, 0x137C), (0x1380, 0x138F), (0x13A0, 0x13F5),
      (0x13F8, 0x13FD), (0x1401, 0x166C), (0x166F, 0x167F), (0x1681, 0x169A), (0x16A0, 0x16EA),
      (0x16EE, 0x16F8), (0x1700, 0x1711), (0x171F, 0x1731), (0x1740, 0x1751), (0x1760, 0x176C),
      (0x176E, 0x1770), (0x1780, 0x17B3), (0x17D7, 0x17D7), (0x17DC, 0x17DC), (0x17E0, 0x17E9),
      (0x17F0, 0x17F9), (0x1810, 0x1819), (0x1820, 0x1878), (0x1880, 0x1884), (0x1887, 0x18A8),
      (0x18AA, 0x18AA), (0x18B0, 0x18F5), (0x1900, 0x191E), (0x1946, 0x196D), (0x1970, 0x1974),
      (0x1980, 0x19AB), (0x19B0, 0x19C9), (0x19D0, 0x19DA), (0x1A00, 0x1A16), (0x1A20, 0x1A54),
      (0x1A80, 0x1A89), (0x1A90, 0x1A99), (0x1AA7, 0x1AA7), (0x1B05, 0x1B33), (0x1B45, 0x1B4C),
      (0x1B50, 0x1B59), (0x1B83, 0x1BA0), (0x1BAE, 0x1BE5), (0x1C00, 0x1C23), (0x1C40, 0x1C49),
      (0x1C4D, 0x1C7D), (0x1C80, 0x1C88), (0x1C90, 0x1CBA), (0x1CBD, 0x1CBF), (0x1CE9, 0x1CEC),
      (0x1CEE, 0x1CF3), (0x1CF5, 0x1CF6), (0x1CFA, 0x1CFA), (0x1D00, 0x1DBF), (0x1E00, 0x1F15),
      (0x1F18, 0x1F1D), (0x1F20, 0x1F45), (0x1F48, 0x1F4D), (0x1F50, 0x1F57), (0x1F59, 0x1F59),
      (0x1F5B, 0x1F5B), (0x1F5D, 0x1F5D), (0x1F5F, 0x1F7D), (0x1F80, 0x1FB4), (0x1FB6, 0x1FBC),
      (0x1FBE, 0x1FBE), (0x1FC2, 0x1FC4), (0x1FC6, 0x1FCC), (0x1FD0, 0x1FD3), (0x1FD6, 0x1FDB),
      (0x1FE0, 0x1FEC), (0x1FF2, 0x1FF4), (0x1FF6, 0x1FFC), (0x2070, 0x2071), (0x2074, 0x2079),
      (0x207F, 0x2089), (0x2090, 0x209C), (0x2102, 0x2102), (0x2107, 0x2107), (0x210A, 0x2113),
      (0x2115, 0x2115), (0x2119, 0x211D), (0x2124, 0x2124), (0x2126, 0x2126), (0x2128, 0x2128),
      (0x212A, 0x212D), (0x212F, 0x2139), (0x213C, 0x213F), (0x2145, 0x2149), (0x214E, 0x214E),
      (0x2150, 0x2189), (0x2460, 0x249B), (0x24EA, 0x24FF), (0x2776, 0x2793), (0x2C00, 0x2CE4),
      (0x2CEB, 0x2CEE), (0x2CF2, 0x2CF3), (0x2CFD, 0x2CFD), (0x2D00, 0x2D25), (0x2D27, 0x2D27),
      (0x2D2D, 0x2D2D), (0x2D30, 0x2D67), (0x2D6F, 0x2D6F), (0x2D80, 0x2D96), (0x2DA0, 0x2DA6),
      (0x2DA8, 0x2DAE), (0x2DB0, 0x2DB6), (0x2DB8, 0x2DBE), (0x2DC0, 0x2DC6), (0x2DC8, 0x2DCE),
      (0x2DD0, 0x2DD6), (0x2DD8, 0x2DDE), (0x2E2F, 0x2E2F), (0x3005, 0x3007), (0x3021, 0x3029),
      (0x3031, 0x3035), (0x3038, 0x303C), (0x3041, 0x3096), (0x309D, 0x309F), (0x30A1, 0x30FA),
      (0x30FC, 0x30FF), (0x3105, 0x312F), (0x3131, 0x318E), (0x3192, 0x3195), (0x31A0, 0x31BF),
      (0x31F0, 0x31FF), (0x3220, 0x3229), (0x3248, 0x324F), (0x3251, 0x325F), (0x3280, 0x3289),
      (0x32B1, 0x32BF), (0x3400, 0x4DBF), (0x4E00, 0xA48C), (0xA4D0, 0xA4FD), (0xA500, 0xA60C),
      (0xA610, 0xA62B), (0xA640, 0xA66E), (0xA67F, 0xA69D), (0xA6A0, 0xA6EF), (0xA717, 0xA71F),
      (0xA722, 0xA788), (0xA78B, 0xA7CA), (0xA7D0, 0xA7D1), (0xA7D3, 0xA7D3), (0xA7D5, 0xA7D9),
      (0xA7F2, 0xA801), (0xA803, 0xA805), (0xA807, 0xA80A), (0xA80C, 0xA822), (0xA830, 0xA835),
      (0xA840, 0xA873), (0xA882, 0xA8B3), (0xA8D0, 0xA8D9), (0xA8F2, 0xA8F7), (0xA8FB, 0xA8FB),
      (0xA8FD, 0xA8FE), (0xA900, 0xA925), (0xA930, 0xA946), (0xA960, 0xA97C), (0xA984, 0xA9B2),
      (0xA9CF, 0xA9D9), (0xA9E0, 0xA9E4), (0xA9E6, 0xA9FE), (0xAA00, 0xAA28), (0xAA40, 0xAA42),
      (0xAA44, 0xAA4B), (0xAA50, 0xAA59), (0xAA60, 0xAA76), (0xAA7A, 0xAA7A), (0xAA7E, 0xAAAF),
      (0xAAB1, 0xAAB1), (0xAAB5, 0xAAB6), (0xAAB9, 0xAABD), (0xAAC0, 0xAAC0), (0xAAC2, 0xAAC2),
      (0xAADB, 0xAADD), (0xAAE0, 0xAAEA), (0xAAF2, 0xAAF4), (0xAB01, 0xAB06), (0xAB09, 0xAB0E),
      (0xAB11, 0xAB16), (0xAB20, 0xAB26), (0xAB28, 0xAB2E), (0xAB30, 0xAB5A), (0xAB5C, 0xAB69),
      (0xAB70, 0xABE2), (0xABF0, 0xABF9), (0xAC00, 0xD7A3), (0xD7B0, 0xD7C6), (0xD7CB, 0xD7FB),
      (0xF900, 0xFA6D), (0xFA70, 0xFAD9), (0xFB00, 0xFB06), (0xFB13, 0xFB17), (0xFB1D, 0xFB1D),
      (0xFB1F, 0xFB28), (0xFB2A, 0xFB36), (0xFB38, 0xFB3C), (0xFB3E, 0xFB3E), (0xFB40, 0xFB41),
      (0xFB43, 0xFB44), (0xFB46, 0xFBB1), (0xFBD3, 0xFD3D), (0xFD50, 0xFD8F), (0xFD92, 0xFDC7),
      (0xFDF0, 0xFDFB), (0xFE70, 0xFE74), (0xFE76, 0xFEFC), (0xFF10, 0xFF19), (0xFF21, 0xFF3A),
      (0xFF41, 0xFF5A), (0xFF66, 0xFFBE), (0xFFC2, 0xFFC7), (0xFFCA, 0xFFCF), (0xFFD2, 0xFFD7),
      (0xFFDA, 0xFFDC), (0x10000, 0x1000B), (0x1000D, 0x10026), (0x10028, 0x1003A), (0x1003C, 0x1003D),
      (0x1003F, 0x1004D), (0x10050, 0x1005D), (0x10080, 0x100FA), (0x10107, 0x10133), (0x10140, 0x10178),
      (0x1018A, 0x1018B), (0x10280, 0x1029C), (0x102A0, 0x102D0), (0x102E1, 0x102FB), (0x10300, 0x10323),
      (0x1032D, 0x1034A), (0x10350, 0x10375), (0x10380, 0x1039D), (0x103A0, 0x103C3), (0x103C8, 0x103CF),
      (0x103D1, 0x103D5), (0x10400, 0x1049D), (0x104A0, 0x104A9), (0x104B0, 0x104D3), (0x104D8, 0x104FB),
      (0x10500, 0x10527), (0x10530, 0x10563), (0x10570, 0x1057A), (0x1057C, 0x1058A), (0x1058C, 0x10592),
      (0x10594, 0x10595), (0x10597, 0x105A1), (0x105A3, 0x105B1), (0x105B3, 0x105B9), (0x105BB, 0x105BC),
      (0x10600, 0x10736), (0x10740, 0x10755), (0x10760, 0x10767), (0x10780, 0x10785), (0x10787, 0x107B0),
      (0x107B2, 0x107BA), (0x10800, 0x10805), (0x10808, 0x10808), (0x1080A, 0x10835), (0x10837, 0x10838),
      (0x1083C, 0x1083C), (0x1083F, 0x10855), (0x10858, 0x10876), (0x10879, 0x1089E), (0x108A7, 0x108AF),
      (0x108E0, 0x108F2), (0x108F4, 0x108F5), (0x108FB, 0x1091B), (0x10920, 0x10939), (0x10980, 0x109B7),
      (0x109BC, 0x109CF), (0x109D2, 0x10A00), (0x10A10, 0x10A13), (0x10A15, 0x10A17), (0x10A19, 0x10A35),
      (0x10A40, 0x10A48), (0x10A60, 0x10A7E), (0x10A80, 0x10A9F), (0x10AC0, 0x10AC7), (0x10AC9, 0x10AE4),
      (0x10AEB, 0x10AEF), (0x10B00, 0x10B35), (0x10B40, 0x10B55), (0x10B58, 0x10B72), (0x10B78, 0x10B91),
      (0x10BA9, 0x10BAF), (0x10C00, 0x10C48), (0x10C80, 0x10CB2), (0x10CC0, 0x10CF2), (0x10CFA, 0x10D23),
      (0x10D30, 0x10D39), (0x10E60, 0x10E7E), (0x10E80, 0x10EA9), (0x10EB0, 0x10EB1), (0x10F00, 0x10F27),
      (0x10F30, 0x10F45), (0x10F51, 0x10F54), (0x10F70, 0x10F81), (0x10FB0, 0x10FCB), (0x10FE0, 0x10FF6),
      (0x11003, 0x11037), (0x11052, 0x1106F), (0x11071, 0x11072), (0x11075, 0x11075), (0x11083, 0x110AF),
      (0x110D0, 0x110E8), (0x110F0, 0x110F9), (0x11103, 0x11126), (0x11136, 0x1113F), (0x11144, 0x11144),
      (0x11147, 0x11147), (0x11150, 0x11172), (0x11176, 0x11176), (0x11183, 0x111B2), (0x111C1, 0x111C4),
      (0x111D0, 0x111DA), (0x111DC, 0x111DC), (0x111E1, 0x111F4), (0x11200, 0x11211), (0x11213, 0x1122B),
      (0x11280, 0x11286), (0x11288, 0x11288), (0x1128A, 0x1128D), (0x1128F, 0x1129D), (0x1129F, 0x112A8),
      (0x112B0, 0x112DE), (0x112F0, 0x112F9), (0x11305, 0x1130C), (0x1130F, 0x11310), (0x11313, 0x11328),
      (0x1132A, 0x11330), (0x11332, 0x11333), (0x11335, 0x11339), (0x1133D, 0x1133D), (0x11350, 0x11350),
      (0x1135D, 0x11361), (0x11400, 0x11434), (0x11447, 0x1144A), (0x11450, 0x11459), (0x1145F, 0x11461),
      (0x11480, 0x114AF), (0x114C4, 0x114C5), (0x114C7, 0x114C7), (0x114D0, 0x114D9), (0x11580, 0x115AE),
      (0x115D8, 0x115DB), (0x11600, 0x1162F), (0x11644, 0x11644), (0x11650, 0x11659), (0x11680, 0x116AA),
      (0x116B8, 0x116B8), (0x116C0, 0x116C9), (0x11700, 0x1171A), (0x11730, 0x1173B), (0x11740, 0x11746),
      (0x11800, 0x1182B), (0x118A0, 0x118F2), (0x118FF, 0x11906), (0x11909, 0x11909), (0x1190C, 0x11913),
      (0x11915, 0x11916), (0x11918, 0x1192F), (0x1193F, 0x1193F), (0x11941, 0x11941), (0x11950, 0x11959),
      (0x119A0, 0x119A7), (0x119AA, 0x119D0), (0x119E1, 0x119E1), (0x119E3, 0x119E3), (0x11A00, 0x11A00),
      (0x11A0B, 0x11A32), (0x11A3A, 0x11A3A), (0x11A50, 0x11A50), (0x11A5C, 0x11A89), (0x11A9D, 0x11A9D),
      (0x11AB0, 0x11AF8), (0x11C00, 0x11C08), (0x11C0A, 0x11C2E), (0x11C40, 0x11C40), (0x11C50, 0x11C6C),
      (0x11C72, 0x11C8F), (0x11D00, 0x11D06), (0x11D08, 0x11D09), (0x11D0B, 0x11D30), (0x11D46, 0x11D46),
      (0x11D50, 0x11D59), (0x11D60, 0x11D65), (0x11D67, 0x11D68), (0x11D6A, 0x11D89), (0x11D98, 0x11D98),
      (0x11DA0, 0x11DA9), (0x11EE0, 0x11EF2), (0x11FB0, 0x11FB0), (0x11FC0, 0x11FD4), (0x12000, 0x12399),
      (0x12400, 0x1246E), (0x12480, 0x12543), (0x12F90, 0x12FF0), (0x13000, 0x1342E), (0x14400, 0x14646),
      (0x16800, 0x16A38), (0x16A40, 0x16A5E), (0x16A60, 0x16A69), (0x16A70, 0x16ABE), (0x16AC0, 0x16AC9),
      (0x16AD0, 0x16AED), (0x16B00, 0x16B2F), (0x16B40, 0x16B43), (0x16B50, 0x16B59), (0x16B5B, 0x16B61),
      (0x16B63, 0x16B77), (0x16B7D, 0x16B8F), (0x16E40, 0x16E96), (0x16F00, 0x16F4A), (0x16F50, 0x16F50),
      (0x16F93, 0x16F9F), (0x16FE0, 0x16FE1), (0x16FE3, 0x16FE3), (0x17000, 0x187F7), (0x18800, 0x18CD5),
      (0x18D00, 0x18D08), (0x1AFF0, 0x1AFF3), (0x1AFF5, 0x1AFFB), (0x1AFFD, 0x1AFFE), (0x1B000, 0x1B122),
      (0x1B150, 0x1B152), (0x1B164, 0x1B167), (0x1B170, 0x1B2FB), (0x1BC00, 0x1BC6A), (0x1BC70, 0x1BC7C),
      (0x1BC80, 0x1BC88), (0x1BC90, 0x1BC99), (0x1D2E0, 0x1D2F3), (0x1D360, 0x1D378), (0x1D400, 0x1D454),
      (0x1D456, 0x1D49C), (0x1D49E, 0x1D49F), (0x1D4A2, 0x1D4A2), (0x1D4A5, 0x1D4A6), (0x1D4A9, 0x1D4AC),
      (0x1D4AE, 0x1D4B9), (0x1D4BB, 0x1D4BB), (0x1D4BD, 0x1D4C3), (0x1D4C5, 0x1D505), (0x1D507, 0x1D50A),
      (0x1D50D, 0x1D514), (0x1D516, 0x1D51C), (0x1D51E, 0x1D539), (0x1D53B, 0x1D53E), (0x1D540, 0x1D544),
      (0x1D546, 0x1D546), (0x1D54A, 0x1D550), (0x1D552, 0x1D6A5), (0x1D6A8, 0x1D6C0), (0x1D6C2, 0x1D6DA),
      (0x1D6DC, 0x1D6FA), (0x1D6FC, 0x1D714), (0x1D716, 0x1D734), (0x1D736, 0x1D74E), (0x1D750, 0x1D76E),
      (0x1D770, 0x1D788), (0x1D78A, 0x1D7A8), (0x1D7AA, 0x1D7C2), (0x1D7C4, 0x1D7CB), (0x1D7CE, 0x1D7FF),
      (0x1DF00, 0x1DF1E), (0x1E100, 0x1E12C), (0x1E137, 0x1E13D), (0x1E140, 0x1E149), (0x1E14E, 0x1E14E),
      (0x1E290, 0x1E2AD), (0x1E2C0, 0x1E2EB), (0x1E2F0, 0x1E2F9), (0x1E7E0, 0x1E7E6), (0x1E7E8, 0x1E7EB),
      (0x1E7ED, 0x1E7EE), (0x1E7F0, 0x1E7FE), (0x1E800, 0x1E8C4), (0x1E8C7, 0x1E8CF), (0x1E900, 0x1E943),
      (0x1E94B, 0x1E94B), (0x1E950, 0x1E959), (0x1EC71, 0x1ECAB), (0x1ECAD, 0x1ECAF), (0x1ECB1, 0x1ECB4),
      (0x1ED01, 0x1ED2D), (0x1ED2F, 0x1ED3D), (0x1EE00, 0x1EE03), (0x1EE05, 0x1EE1F), (0x1EE21, 0x1EE22),
      (0x1EE24, 0x1EE24), (0x1EE27, 0x1EE27), (0x1EE29, 0x1EE32), (0x1EE34, 0x1EE37), (0x1EE39, 0x1EE39),
      (0x1EE3B, 0x1EE3B), (0x1EE42, 0x1EE42), (0x1EE47, 0x1EE47), (0x1EE49, 0x1EE49), (0x1EE4B, 0x1EE4B),
      (0x1EE4D, 0x1EE4F), (0x1EE51, 0x1EE52), (0x1EE54, 0x1EE54), (0x1EE57, 0x1EE57), (0x1EE59, 0x1EE59),
      (0x1EE5B, 0x1EE5B), (0x1EE5D, 0x1EE5D), (0x1EE5F, 0x1EE5F), (0x1EE61, 0x1EE62), (0x1EE64, 0x1EE64),
      (0x1EE67, 0x1EE6A), (0x1EE6C, 0x1EE72), (0x1EE74, 0x1EE77), (0x1EE79, 0x1EE7C), (0x1EE7E, 0x1EE7E),
      (0x1EE80, 0x1EE89), (0x1EE8B, 0x1EE9B), (0x1EEA1, 0x1EEA3), (0x1EEA5, 0x1EEA9), (0x1EEAB, 0x1EEBB),
      (0x1F100, 0x1F10C), (0x1FBF0, 0x1FBF9), (0x20000, 0x2A6DF), (0x2A700, 0x2B738), (0x2B740, 0x2B81D),
      (0x2B820, 0x2CEA1), (0x2CEB0, 0x2EBE0), (0x2F800, 0x2FA1D), (0x30000, 0x3134A)]"

definition is_digit :: "nat \<Rightarrow> bool" where
  \<comment> \<open>the class \<open>\d\<close>\<close>
  "is_digit c = in_ranges c decimal_ranges"

definition is_space :: "nat \<Rightarrow> bool" where
  \<comment> \<open>the class \<open>\s\<close>, which is also what \<open>str.strip()\<close> removes\<close>
  "is_space c = in_ranges c space_ranges"

definition is_word :: "nat \<Rightarrow> bool" where
  \<comment> \<open>the class \<open>\w\<close>\<close>
  "is_word c = in_ranges c word_ranges"

definition replacement :: nat where
  "replacement = 0xFFFD"

definition lower_char :: "nat \<Rightarrow> ustring" where
  \<comment> \<open>the lower-case form of one character, with every character outside ASCII in it
      replaced by U+FFFD. Outside ASCII only U+0130 (to \<open>i\<close> and U+0307) and U+212A (to
      \<open>k\<close>) have an ASCII character in their lower-case form\<close>
  "lower_char c =
     (if 65 \<le> c \<and> c \<le> 90 then [c + 32]
      else if c < 128 then [c]
      else if c = 0x130 then [ch CHR ''i'', replacement]
      else if c = 0x212A then [ch CHR ''k'']
      else [replacement])"

definition lower_ascii :: "ustring \<Rightarrow> ustring" where
  \<comment> \<open>\<open>s.lower()\<close> with every character outside ASCII replaced by U+FFFD. The scraper
      compares lowered strings only with ASCII literals (\<open>==\<close>, \<open>in\<close>, a dictionary with
      ASCII keys), and no literal holds U+FFFD, so each of these tests has on
      \<open>lower_ascii s\<close> the outcome it has on \<open>s.lower()\<close>\<close>
  "lower_ascii s = concat (map lower_char s)"

definition starts_with :: "ustring \<Rightarrow> ustring \<Rightarrow> bool" where
  "starts_with s p = (take (length p) s = p)"

fun contains :: "ustring \<Rightarrow> ustring \<Rightarrow> bool" where
  \<comment> \<open>\<open>needle in s\<close>\<close>
  "contains needle [] = (needle = [])"
| "contains needle (c # cs) = (starts_with (c # cs) needle \<or> contains needle cs)"

definition py_strip :: "ustring \<Rightarrow> ustring" where
  \<comment> \<open>\<open>str.strip()\<close>\<close>
  "py_strip s = rev (dropWhile is_space (rev (dropWhile is_space s)))"

definition py_strip_chars :: "ustring \<Rightarrow> ustring \<Rightarrow> ustring" where
  \<comment> \<open>\<open>str.strip(chars)\<close>\<close>
  "py_strip_chars chars s =
     rev (dropWhile (\<lambda>c. c \<in> set chars) (rev (dropWhile (\<lambda>c. c \<in> set chars) s)))"

definition digit_val :: "nat \<Rightarrow> int" where
  \<comment> \<open>the value of a decimal digit of any script\<close>
  "digit_val c =
     (case range_start c decimal_ranges of
        Some zero \<Rightarrow> int ((c - zero) mod 10)
      | None \<Rightarrow> 0)"

definition py_int :: "ustring \<Rightarrow> int" where
  \<comment> \<open>\<open>int(s)\<close> for a non-empty string of decimal digits; the source calls it on
      nothing else (see \<open>search_season_digits\<close>, \<open>search_year20_digits\<close> and
      \<open>extract_date_year_digits\<close>)\<close>
  "py_int s = foldl (\<lambda>a c. 10 * a + digit_val c) 0 s"

definition digit_char :: "nat \<Rightarrow> nat" where
  "digit_char d = ch CHR ''0'' + d"

fun nat_str :: "nat \<Rightarrow> ustring" where
  "nat_str n = (if n < 10 then [digit_char n] else nat_str (n div 10) @ [digit_char (n mod 10)])"

declare nat_str.simps [simp del]

definition py_str :: "int \<Rightarrow> ustring" where
  \<comment> \<open>\<open>str(n)\<close> for an integer\<close>
  "py_str n = (if n < 0 then ch CHR ''-'' # nat_str (nat (- n)) else nat_str (nat n))"

definition py_zfill :: "nat \<Rightarrow> ustring \<Rightarrow> ustring" where
  \<comment> \<open>\<open>s.zfill(width)\<close>: zeros go after a leading sign\<close>
  "py_zfill width s =
     (if width \<le> length s then s
      else case s of
             c # cs \<Rightarrow> if c = ch CHR ''+'' \<or> c = ch CHR ''-''
                       then c # replicate (width - length s) (ch CHR ''0'') @ cs
                       else replicate (width - length s) (ch CHR ''0'') @ s
           | [] \<Rightarrow> replicate width (ch CHR ''0''))"

section \<open>Text helpers of the scraper\<close>

subsection \<open>\<open>_sanitize_filename\<close>\<close>

definition invalid_chars :: ustring where
  \<comment> \<open>the class \<open>[<>:"/\\|?*]\<close>\<close>
  "invalid_chars = str ''<>:'' @ [0x22] @ str ''/'' @ [0x5C] @ str ''|?*''"

definition sub_invalid :: "ustring \<Rightarrow> ustring" where
  \<comment> \<open>\<open>re.sub(r'[<>:"/\\|?*]', '_', name)\<close>\<close>
  "sub_invalid name = map (\<lambda>c. if c \<in> set invalid_chars then ch CHR ''_'' else c) name"

function sub_runs :: "(nat \<Rightarrow> bool) \<Rightarrow> ustring \<Rightarrow> ustring" where
  \<comment> \<open>\<open>re.sub(r'C+', '_', name)\<close> for a character class \<open>C\<close>: every maximal run of
      characters of the class becomes one underscore\<close>
  "sub_runs C [] = []"
| "sub_runs C (c # cs) =
     (if C c then ch CHR ''_'' # sub_runs C (dropWhile C cs) else c # sub_runs C cs)"
  by pat_completeness auto
termination
  by (relation "measure (\<lambda>(C, s). length s)")
     (auto simp: le_imp_less_Suc length_dropWhile_le)

definition sanitize_filename :: "ustring \<Rightarrow> ustring" where
  "sanitize_filename name0 =
     (let name = sub_invalid name0;
          name = sub_runs is_space name;
          name = sub_runs (\<lambda>c. c = ch CHR ''_'') name;
          name = py_strip_chars (str ''._-'') name
      in if length name > 100 then take 100 name else name)"

subsection \<open>\<open>_extract_year_from_text\<close>\<close>

record config =
  output_base_dir :: "ustring list"  \<comment> \<open>the components of the output path\<close>
  start_year :: int
  end_year :: int  \<comment> \<open>as the constructor leaves it: the given year, or the current one\<close>
  max_pages :: int \<comment> \<open>as it is when the loop starts: given, or detected\<close>

fun search_season :: "ustring \<Rightarrow> ustring option" where
  \<comment> \<open>\<open>re.search(r'(\d{2})-(\d{2})', text)\<close>: group 1 of the leftmost match\<close>
  "search_season (a # b # c # d # e # rest) =
     (if is_digit a \<and> is_digit b \<and> c = ch CHR ''-'' \<and> is_digit d \<and> is_digit e
      then Some [a, b]
      else search_season (b # c # d # e # rest))"
| "search_season _ = None"

fun search_year20 :: "ustring \<Rightarrow> ustring option" where
  \<comment> \<open>\<open>re.search(r'(20\d{2})', text)\<close>: group 1 of the leftmost match\<close>
  "search_year20 (a # b # c # d # rest) =
     (if a = ch CHR ''2'' \<and> b = ch CHR ''0'' \<and> is_digit c \<and> is_digit d
      then Some [a, b, c, d]
      else search_year20 (b # c # d # rest))"
| "search_year20 _ = None"

definition extract_year_from_text :: "config \<Rightarrow> int \<Rightarrow> ustring \<Rightarrow> int" where
  \<comment> \<open>\<open>now\<close> is what \<open>datetime.now().year\<close> gives at the call\<close>
  "extract_year_from_text cfg now text =
     (let explicit = (case search_year20 text of
                        Some y \<Rightarrow> py_int y
                      | None \<Rightarrow> now)
      in case search_season text of
           Some nn \<Rightarrow>
             (let year = py_int (str ''20'' @ nn)
              in if start_year cfg \<le> year \<and> year \<le> end_year cfg then year else explicit)
         | None \<Rightarrow> explicit)"

subsection \<open>\<open>_extract_date_from_page\<close>\<close>

definition months_es :: "(ustring \<times> ustring) list" where
  "months_es =
     map (\<lambda>(name, number). (str name, str number))
       [(''enero'', ''01''), (''febrero'', ''02''), (''marzo'', ''03''), (''abril'', ''04''),
        (''mayo'', ''05''), (''junio'', ''06''), (''julio'', ''07''), (''agosto'', ''08''),
        (''septiembre'', ''09''), (''octubre'', ''10''), (''noviembre'', ''11''),
        (''diciembre'', ''12'')]"

text \<open>
  The pattern \<open>(\d{1,2})\s+de\s+(\w+)\s+de\s+(\d{4})\<close>, matched ignoring case. No character
  is both white space and a word character, every digit is a word character and none
  is white space, and the letters \<open>d\<close> and \<open>e\<close> match only themselves and their capitals.
  So at a given start the backtracking matcher can only succeed with every repetition
  taken as long as possible: a shorter day would leave a digit where white space is
  required, shorter white space would leave white space where \<open>d\<close>, a word character or
  a digit is required, and a shorter word would leave a word character where white
  space is required. Each piece is therefore a function of the text that remains.
\<close>

definition match_day :: "ustring \<Rightarrow> (ustring \<times> ustring) option" where
  \<comment> \<open>\<open>(\d{1,2})\<close>\<close>
  "match_day s =
     (case s of
        a # b # rest \<Rightarrow> if is_digit a \<and> is_digit b then Some ([a, b], rest)
                       else if is_digit a then Some ([a], b # rest) else None
      | [a] \<Rightarrow> if is_digit a then Some ([a], []) else None
      | [] \<Rightarrow> None)"

definition match_spaces :: "ustring \<Rightarrow> ustring option" where
  \<comment> \<open>\<open>\s+\<close>\<close>
  "match_spaces s =
     (case s of c # cs \<Rightarrow> if is_space c then Some (dropWhile is_space cs) else None
              | [] \<Rightarrow> None)"

definition match_de :: "ustring \<Rightarrow> ustring option" where
  \<comment> \<open>the literal \<open>de\<close>, ignoring case\<close>
  "match_de s =
     (case s of
        a # b # rest \<Rightarrow> if (a = ch CHR ''d'' \<or> a = ch CHR ''D'')
                           \<and> (b = ch CHR ''e'' \<or> b = ch CHR ''E'')
                        then Some rest else None
      | _ \<Rightarrow> None)"

definition match_word :: "ustring \<Rightarrow> (ustring \<times> ustring) option" where
  \<comment> \<open>\<open>(\w+)\<close>\<close>
  "match_word s =
     (case s of c # cs \<Rightarrow> if is_word c then Some (takeWhile is_word s, dropWhile is_word s)
                          else None
              | [] \<Rightarrow> None)"

definition match_year4 :: "ustring \<Rightarrow> ustring option" where
  \<comment> \<open>\<open>(\d{4})\<close>\<close>
  "match_year4 s =
     (case s of
        a # b # c # d # rest \<Rightarrow>
          if is_digit a \<and> is_digit b \<and> is_digit c \<and> is_digit d then Some [a, b, c, d]
          else None
      | _ \<Rightarrow> None)"

definition match_date_at :: "ustring \<Rightarrow> (ustring \<times> ustring \<times> ustring) option" where
  \<comment> \<open>the pattern matched at the start of \<open>s\<close>: groups 1, 2 and 3\<close>
  "match_date_at s =
     (case match_day s of None \<Rightarrow> None | Some (day, s1) \<Rightarrow>
      case match_spaces s1 of None \<Rightarrow> None | Some s2 \<Rightarrow>
      case match_de s2 of None \<Rightarrow> None | Some s3 \<Rightarrow>
      case match_spaces s3 of None \<Rightarrow> None | Some s4 \<Rightarrow>
      case match_word s4 of None \<Rightarrow> None | Some (month_name, s5) \<Rightarrow>
      case match_spaces s5 of None \<Rightarrow> None | Some s6 \<Rightarrow>
      case match_de s6 of None \<Rightarrow> None | Some s7 \<Rightarrow>
      case match_spaces s7 of None \<Rightarrow> None | Some s8 \<Rightarrow>
      case match_year4 s8 of None \<Rightarrow> None | Some year \<Rightarrow>
      Some (day, month_name, year))"

fun search_date :: "ustring \<Rightarrow> (ustring \<times> ustring \<times> ustring) option" where
  \<comment> \<open>\<open>re.search(pattern, text, re.IGNORECASE)\<close>: the leftmost start that matches\<close>
  "search_date [] = None"
| "search_date (c # cs) =
     (case match_date_at (c # cs) of Some m \<Rightarrow> Some m | None \<Rightarrow> search_date cs)"

definition extract_date_from_page :: "ustring \<Rightarrow> ustring option" where
  \<comment> \<open>the argument is \<open>soup.get_text()\<close>\<close>
  "extract_date_from_page text =
     (case search_date text of
        Some (d, m, year) \<Rightarrow>
          (let day = py_zfill 2 d; month_name = lower_ascii m
           in case map_of months_es month_name of
                Some mm \<Rightarrow> Some (year @ str ''-'' @ mm @ str ''-'' @ day)
              | None \<Rightarrow> None)
      | None \<Rightarrow> None)"

section \<open>The world outside the scraper\<close>

text \<open>
  Parsing HTML, the transport and the file system are outside the program. A response is
  what the scraper reads from it: the anchors that carry an \<open>href\<close>, in document order,
  each with its \<open>get_text(strip=True)\<close>; the page's \<open>get_text()\<close>; and the declared
  \<open>Content-Type\<close> (empty when the header is absent).
\<close>

type_synonym path = "ustring list"

datatype anchor = Anchor (href: ustring) (link_text: ustring)

datatype response =
  Response (anchors: "anchor list") (page_text: ustring) (content_type: ustring)

datatype write_result =
    Written
  | WriteFailed bool
    \<comment> \<open>an \<open>IOError\<close> while creating the directory, writing the streamed body or reading
        the size; the flag says whether a file was left at the path\<close>

record world =
  fetch :: "nat \<Rightarrow> ustring \<Rightarrow> response option"
    \<comment> \<open>the answer to the \<open>n\<close>-th request of the run; \<open>None\<close> is a timeout, a connection
        error or an HTTP error status\<close>
  write_body :: "nat \<Rightarrow> path \<Rightarrow> write_result"
  registry_write :: "nat \<Rightarrow> bool"
    \<comment> \<open>whether the \<open>n\<close>-th write of the registry file succeeds; when it does not, an
        \<open>IOError\<close> is raised while creating the directory or writing the file\<close>
  now_year :: "nat \<Rightarrow> int"
    \<comment> \<open>\<open>datetime.now().year\<close> at the \<open>n\<close>-th title examined\<close>
  urljoin :: "ustring \<Rightarrow> ustring \<Rightarrow> ustring"

section \<open>The scraper\<close>

definition BASE_URL :: ustring where
  "BASE_URL = str ''https://www.federacionmadridnatacion.es''"

definition CALENDAR_URL :: ustring where
  "CALENDAR_URL = BASE_URL @ str ''/index.php/competiciones-natacion''"

record competition =
  comp_id :: ustring
  url :: ustring
  title :: ustring
  season_year :: int

text \<open>
  The trace lists, in order, what a run does to the outside: the requests it sends, the
  writes of the registry, and the lines it logs about pages, competitions and files.
\<close>

datatype event =
    Page int                   \<comment> \<open>the loop starts on this page of the calendar\<close>
  | Requested ustring          \<comment> \<open>\<open>session.get(url)\<close>\<close>
  | Found nat                  \<comment> \<open>the page gave this many new competitions\<close>
  | Competition ustring        \<comment> \<open>\<open>_process_competition\<close> starts on this identifier\<close>
  | AlreadyDownloaded ustring  \<comment> \<open>the URL is in the registry: no transfer\<close>
  | FileExists ustring path    \<comment> \<open>the target file is on disk: no transfer\<close>
  | NotZip ustring             \<comment> \<open>the response declares \<open>text/html\<close>\<close>
  | Downloaded ustring path    \<comment> \<open>the body was written to the path\<close>
  | SaveError ustring          \<comment> \<open>an \<open>IOError\<close> while saving\<close>
  | RegistrySaved              \<comment> \<open>\<open>_save_registry\<close> rewrote the registry file\<close>
  | RegistrySaveFailed         \<comment> \<open>\<open>_save_registry\<close> caught an \<open>IOError\<close> and logged it\<close>

record scraper =
  processed_competitions :: "ustring set"
  downloaded_files :: "ustring set"
  pages_scraped :: nat
  competitions_found :: nat
  competitions_already_downloaded :: nat
  competitions_with_res :: nat
  files_downloaded :: nat
  files_skipped :: nat
  errors :: nat
  files :: "path set"   \<comment> \<open>the files on disk\<close>
  nreq :: nat           \<comment> \<open>requests sent so far\<close>
  ntitles :: nat        \<comment> \<open>titles examined so far\<close>
  nsaves :: nat         \<comment> \<open>writes of the registry tried so far\<close>
  trace :: "event list"

definition emit :: "event \<Rightarrow> scraper \<Rightarrow> scraper" where
  "emit e s = s\<lparr>trace := trace s @ [e]\<rparr>"

definition save_registry :: "world \<Rightarrow> scraper \<Rightarrow> scraper" where
  \<comment> \<open>the file is rewritten as a whole; an \<open>IOError\<close> is caught and logged, and the run
      goes on\<close>
  "save_registry w s =
     (emit (if registry_write w (nsaves s) then RegistrySaved else RegistrySaveFailed) s)
       \<lparr>nsaves := nsaves s + 1\<rparr>"

definition make_request :: "world \<Rightarrow> ustring \<Rightarrow> scraper \<Rightarrow> response option \<times> scraper" where
  "make_request w u s =
     (let s1 = (emit (Requested u) s)\<lparr>nreq := nreq s + 1\<rparr>
      in case fetch w (nreq s) u of
           Some r \<Rightarrow> (Some r, s1)
         | None \<Rightarrow> (None, s1\<lparr>errors := errors s1 + 1\<rparr>))"

subsection \<open>\<open>_get_competitions_from_page\<close>\<close>

definition newline :: nat where
  "newline = 0x0A"

fun lazy_rest :: "ustring \<Rightarrow> bool" where
  \<comment> \<open>\<open>(.+?)(?:/|$)\<close> once \<open>.+?\<close> holds one character: stop at a slash, at the end, or
      before a newline that ends the string; otherwise take one more character, which
      must not be a newline\<close>
  "lazy_rest [] = True"
| "lazy_rest (c # cs) =
     (c = ch CHR ''/'' \<or> (c = newline \<and> cs = []) \<or> (c \<noteq> newline \<and> lazy_rest cs))"

definition lazy_name :: "ustring \<Rightarrow> bool" where
  \<comment> \<open>\<open>(.+?)(?:/|$)\<close>\<close>
  "lazy_name s = (case s of [] \<Rightarrow> False | c # cs \<Rightarrow> c \<noteq> newline \<and> lazy_rest cs)"

definition match_competition_at :: "ustring \<Rightarrow> ustring option" where
  \<comment> \<open>\<open>/competiciones-natacion/(\d+)-(.+?)(?:/|$)\<close> at the start of \<open>s\<close>: group 1. After
      the digits comes a hyphen, so the digits are the longest run\<close>
  "match_competition_at s =
     (if starts_with s (str ''/competiciones-natacion/'')
      then let r = drop (length (str ''/competiciones-natacion/'')) s;
               ds = takeWhile is_digit r;
               rest = dropWhile is_digit r
           in case rest of
                c # name \<Rightarrow> if ds \<noteq> [] \<and> c = ch CHR ''-'' \<and> lazy_name name then Some ds
                            else None
              | [] \<Rightarrow> None
      else None)"

fun search_competition :: "ustring \<Rightarrow> ustring option" where
  \<comment> \<open>\<open>re.search(r'/competiciones-natacion/(\d+)-(.+?)(?:/|$)', href)\<close>\<close>
  "search_competition [] = None"
| "search_competition (c # cs) =
     (case match_competition_at (c # cs) of
        Some i \<Rightarrow> Some i
      | None \<Rightarrow> search_competition cs)"

definition before_first :: "nat \<Rightarrow> ustring \<Rightarrow> ustring" where
  \<comment> \<open>\<open>s.split(c)[0]\<close>\<close>
  "before_first c s = takeWhile (\<lambda>x. x \<noteq> c) s"

definition NATACION :: ustring where
  "NATACION = str ''NATACI'' @ [0xD3] @ str ''N''"

definition strip_federation :: "ustring \<Rightarrow> ustring" where
  \<comment> \<open>\<open>re.sub(r'^NATACION', '', title).strip()\<close>, with the accented O\<close>
  "strip_federation t =
     py_strip (if starts_with t NATACION then drop (length NATACION) t else t)"

definition scan_link ::
  "world \<Rightarrow> config \<Rightarrow> anchor \<Rightarrow> competition list \<times> scraper \<Rightarrow> competition list \<times> scraper"
where
  \<comment> \<open>one turn of the loop over the anchors\<close>
  "scan_link w cfg link acc =
     (let (competitions, s) = acc
      in if \<not> contains (str ''/competiciones-natacion/'') (href link) then (competitions, s)
         else case search_competition (href link) of
           None \<Rightarrow> (competitions, s)
         | Some cid \<Rightarrow>
             if cid \<in> processed_competitions s
             then (competitions,
                   s\<lparr>competitions_already_downloaded := competitions_already_downloaded s + 1\<rparr>)
             else
               let full_url = urljoin w BASE_URL (before_first (ch CHR ''?'') (href link));
                   title0 = link_text link
               in if title0 = [] \<or> length title0 < 5 then (competitions, s)
                  else
                    let title1 = strip_federation title0;
                        year = extract_year_from_text cfg (now_year w (ntitles s)) title1;
                        s1 = s\<lparr>ntitles := ntitles s + 1\<rparr>
                    in if \<not> (start_year cfg \<le> year \<and> year \<le> end_year cfg)
                       then (competitions, s1)
                       else if cid \<notin> set (map comp_id competitions)
                       then (competitions @
                               [\<lparr>comp_id = cid, url = full_url, title = title1,
                                 season_year = year\<rparr>], s1)
                       else (competitions, s1))"

definition page_url :: "int \<Rightarrow> ustring" where
  "page_url page_num =
     (if page_num = 1 then CALENDAR_URL else CALENDAR_URL @ str ''?page='' @ py_str page_num)"

definition get_competitions_from_page ::
  "world \<Rightarrow> config \<Rightarrow> int \<Rightarrow> scraper \<Rightarrow> competition list \<times> scraper"
where
  "get_competitions_from_page w cfg page_num s =
     (case make_request w (page_url page_num) s of
        (None, s1) \<Rightarrow> ([], s1)
      | (Some r, s1) \<Rightarrow> foldl (\<lambda>acc link. scan_link w cfg link acc) ([], s1) (anchors r))"

subsection \<open>\<open>_find_res_zip_link\<close>\<close>

definition find_res_zip_link ::
  "world \<Rightarrow> ustring \<Rightarrow> scraper \<Rightarrow> (ustring \<times> ustring option) option \<times> scraper"
where
  "find_res_zip_link w competition_url s =
     (case make_request w competition_url s of
        (None, s1) \<Rightarrow> (None, s1)
      | (Some r, s1) \<Rightarrow>
          (let date_str = extract_date_from_page (page_text r)
           in case find (\<lambda>a. lower_ascii (link_text a) = str ''.res''
                              \<and> contains (str ''.zip'') (lower_ascii (href a))) (anchors r) of
                Some a \<Rightarrow> (Some (urljoin w BASE_URL (href a), date_str), s1)
              | None \<Rightarrow>
                  (case find (\<lambda>a. contains (str ''.zip'') (lower_ascii (href a))
                                   \<and> contains (str ''/res'') (lower_ascii (href a)))
                          (anchors r) of
                     Some a \<Rightarrow> (Some (urljoin w BASE_URL (href a), date_str), s1)
                   | None \<Rightarrow> (None, s1))))"

subsection \<open>\<open>_download_file\<close>\<close>

definition download_file :: "world \<Rightarrow> ustring \<Rightarrow> path \<Rightarrow> scraper \<Rightarrow> bool \<times> scraper" where
  "download_file w u save_path s =
     (if u \<in> downloaded_files s
      then (False, (emit (AlreadyDownloaded u) s)\<lparr>files_skipped := files_skipped s + 1\<rparr>)
      else if save_path \<in> files s
      then (False, (emit (FileExists u save_path) s)
                     \<lparr>files_skipped := files_skipped s + 1,
                      downloaded_files := insert u (downloaded_files s)\<rparr>)
      else case make_request w u s of
             (None, s1) \<Rightarrow> (False, s1)
           | (Some r, s1) \<Rightarrow>
               if contains (str ''text/html'') (content_type r)
               then (False, emit (NotZip u) s1)
               else (case write_body w (nreq s) save_path of
                       Written \<Rightarrow>
                         (True, (emit (Downloaded u save_path) s1)
                                  \<lparr>files := insert save_path (files s1),
                                   downloaded_files := insert u (downloaded_files s1),
                                   files_downloaded := files_downloaded s1 + 1\<rparr>)
                     | WriteFailed left \<Rightarrow>
                         (False, (emit (SaveError u) s1)
                                   \<lparr>files := (if left then insert save_path (files s1)
                                               else files s1),
                                    errors := errors s1 + 1\<rparr>)))"

subsection \<open>\<open>_process_competition\<close>\<close>

definition competition_year :: "competition \<Rightarrow> ustring option \<Rightarrow> int" where
  \<comment> \<open>the year of the date when there is a (non-empty) date, the season year otherwise\<close>
  "competition_year c date_str =
     (case date_str of
        Some d \<Rightarrow> if d \<noteq> [] then py_int (before_first (ch CHR ''-'') d) else season_year c
      | None \<Rightarrow> season_year c)"

definition filename :: "competition \<Rightarrow> ustring option \<Rightarrow> ustring" where
  "filename c date_str =
     (case date_str of
        Some d \<Rightarrow>
          if d \<noteq> [] then d @ str ''__'' @ sanitize_filename (title c) @ str ''.zip''
          else py_str (season_year c) @ str ''__'' @ sanitize_filename (title c) @ str ''.zip''
      | None \<Rightarrow>
          py_str (season_year c) @ str ''__'' @ sanitize_filename (title c) @ str ''.zip'')"

definition save_path_of :: "config \<Rightarrow> competition \<Rightarrow> ustring option \<Rightarrow> path" where
  \<comment> \<open>\<open>self.output_base_dir / str(competition_year) / filename\<close>\<close>
  "save_path_of cfg c date_str =
     output_base_dir cfg @ [py_str (competition_year c date_str)] @ [filename c date_str]"

definition mark_processed :: "ustring \<Rightarrow> scraper \<Rightarrow> scraper" where
  "mark_processed cid s = s\<lparr>processed_competitions := insert cid (processed_competitions s)\<rparr>"

definition process_competition :: "world \<Rightarrow> config \<Rightarrow> competition \<Rightarrow> scraper \<Rightarrow> scraper" where
  "process_competition w cfg c s =
     (case find_res_zip_link w (url c) (emit (Competition (comp_id c)) s) of
        (None, s1) \<Rightarrow> mark_processed (comp_id c) s1
      | (Some (zip_url, date_str), s1) \<Rightarrow>
          (let s2 = s1\<lparr>competitions_with_res := competitions_with_res s1 + 1\<rparr>
           in case download_file w zip_url (save_path_of cfg c date_str) s2 of
                (True, s3) \<Rightarrow> mark_processed (comp_id c) s3
              | (False, s3) \<Rightarrow> mark_processed (comp_id c) s3))"

subsection \<open>\<open>run\<close>\<close>

definition process_page :: "world \<Rightarrow> config \<Rightarrow> competition list \<Rightarrow> scraper \<Rightarrow> scraper" where
  \<comment> \<open>the branch of the loop body for a page that gave new competitions\<close>
  "process_page w cfg competitions s =
     save_registry w
       (foldl (\<lambda>s c. process_competition w cfg c s)
          ((emit (Found (length competitions)) s)
             \<lparr>competitions_found := competitions_found s + length competitions\<rparr>)
          competitions)"

function crawl :: "world \<Rightarrow> config \<Rightarrow> int \<Rightarrow> nat \<Rightarrow> scraper \<Rightarrow> scraper" where
  \<comment> \<open>the \<open>while\<close> loop, from the values of \<open>page\<close> and \<open>consecutive_empty\<close>\<close>
  "crawl w cfg page consecutive_empty s =
     (if page \<le> max_pages cfg
      then
        (let (competitions, s1) = get_competitions_from_page w cfg page (emit (Page page) s);
             s2 = s1\<lparr>pages_scraped := pages_scraped s1 + 1\<rparr>
         in if competitions = []
            then if competitions_already_downloaded s2 > 0
                 then crawl w cfg (page + 1) 0 s2
                 else if consecutive_empty + 1 \<ge> 3 then s2
                 else crawl w cfg (page + 1) (consecutive_empty + 1) s2
            else crawl w cfg (page + 1) 0 (process_page w cfg competitions s2))
      else s)"
  by pat_completeness auto
termination
  by (relation "measure (\<lambda>(w, cfg, page, consecutive_empty, s). nat (max_pages cfg + 1 - page))")
     auto

declare crawl.simps [simp del]

definition run :: "world \<Rightarrow> config \<Rightarrow> scraper \<Rightarrow> scraper" where
  \<comment> \<open>the loop of \<open>run\<close> and the final save; \<open>max_pages\<close> is what the configuration or the
      detection that precedes the loop left in it\<close>
  "run w cfg s = save_registry w (crawl w cfg 1 0 s)"

section \<open>Loading the registry\<close>

datatype json =
    JNull | JBool bool | JNum int | JStr ustring
  | JArr "json list" | JObj "(ustring \<times> json) list"

datatype registry_file =
    Missing           \<comment> \<open>\<open>exists()\<close> is false\<close>
  | Unreadable        \<comment> \<open>opening or reading raises \<open>IOError\<close>\<close>
  | NotUtf8           \<comment> \<open>the bytes are not UTF-8: reading raises \<open>UnicodeDecodeError\<close>\<close>
  | Malformed         \<comment> \<open>\<open>json.load\<close> raises \<open>JSONDecodeError\<close>\<close>
  | Content json      \<comment> \<open>\<open>json.load\<close> returns this value\<close>

datatype py_error = AttributeError | TypeError | UnicodeDecodeError

definition hashable :: "json \<Rightarrow> bool" where
  "hashable j = (case j of JArr xs \<Rightarrow> False | JObj kvs \<Rightarrow> False | _ \<Rightarrow> True)"

definition py_key :: "json \<Rightarrow> json" where
  \<comment> \<open>\<open>True\<close> equals 1 and \<open>False\<close> equals 0, with the same hash: a set holds one element
      for both\<close>
  "py_key j = (case j of JBool b \<Rightarrow> JNum (if b then 1 else 0) | _ \<Rightarrow> j)"

definition py_set :: "json \<Rightarrow> py_error + json set" where
  \<comment> \<open>\<open>set(v)\<close>: the elements of a list, the characters of a string, the keys of a
      dictionary; anything else is not iterable, and a list or dictionary cannot be an
      element\<close>
  "py_set v =
     (case v of
        JArr xs \<Rightarrow> if list_all hashable xs then Inr (set (map py_key xs)) else Inl TypeError
      | JStr cs \<Rightarrow> Inr (set (map (\<lambda>c. JStr [c]) cs))
      | JObj kvs \<Rightarrow> Inr (set (map (\<lambda>kv. JStr (fst kv)) kvs))
      | _ \<Rightarrow> Inl TypeError)"

definition dict_get :: "json \<Rightarrow> ustring \<Rightarrow> json \<Rightarrow> py_error + json" where
  \<comment> \<open>\<open>data.get(key, default)\<close>: only a dictionary has the method\<close>
  "dict_get data k dflt =
     (case data of
        JObj kvs \<Rightarrow> (case map_of kvs k of Some v \<Rightarrow> Inr v | None \<Rightarrow> Inr dflt)
      | _ \<Rightarrow> Inl AttributeError)"

definition load_registry :: "registry_file \<Rightarrow> py_error + (json set \<times> json set)" where
  \<comment> \<open>the pair is \<open>(downloaded_files, processed_competitions)\<close>, both empty before the
      call; \<open>Inl\<close> is an exception that leaves \<open>_load_registry\<close>\<close>
  "load_registry f =
     (case f of
        Missing \<Rightarrow> Inr ({}, {})
      | Unreadable \<Rightarrow> Inr ({}, {})
      | NotUtf8 \<Rightarrow> Inl UnicodeDecodeError
      | Malformed \<Rightarrow> Inr ({}, {})
      | Content data \<Rightarrow>
          (case dict_get data (str ''downloaded_urls'') (JArr []) of
             Inl e \<Rightarrow> Inl e
           | Inr urls \<Rightarrow>
               (case py_set urls of
                  Inl e \<Rightarrow> Inl e
                | Inr downloaded \<Rightarrow>
                    (case dict_get data (str ''competition_ids'') (JArr []) of
                       Inl e \<Rightarrow> Inl e
                     | Inr ids \<Rightarrow>
                         (case py_set ids of
                            Inl e \<Rightarrow> Inl e
                          | Inr processed \<Rightarrow> Inr (downloaded, processed))))))"

section \<open>Notions used in the statements\<close>

fun no_adjacent_underscores :: "ustring \<Rightarrow> bool" where
  "no_adjacent_underscores (a # b # cs) =
     (\<not> (a = ch CHR ''_'' \<and> b = ch CHR ''_'') \<and> no_adjacent_underscores (b # cs))"
| "no_adjacent_underscores _ = True"

definition season_at :: "ustring \<Rightarrow> nat \<Rightarrow> bool" where
  \<comment> \<open>a season pattern \<open>NN-MM\<close> starts at index \<open>i\<close>\<close>
  "season_at t i =
     (i + 5 \<le> length t \<and> is_digit (t ! i) \<and> is_digit (t ! (i + 1))
      \<and> t ! (i + 2) = ch CHR ''-''
      \<and> is_digit (t ! (i + 3)) \<and> is_digit (t ! (i + 4)))"

definition year20_at :: "ustring \<Rightarrow> nat \<Rightarrow> bool" where
  \<comment> \<open>four digits that begin with \<open>20\<close> start at index \<open>i\<close>\<close>
  "year20_at t i =
     (i + 4 \<le> length t \<and> t ! i = ch CHR ''2'' \<and> t ! (i + 1) = ch CHR ''0''
      \<and> is_digit (t ! (i + 2)) \<and> is_digit (t ! (i + 3)))"

definition first_at :: "(nat \<Rightarrow> bool) \<Rightarrow> nat \<Rightarrow> bool" where
  "first_at P i = (P i \<and> (\<forall>j<i. \<not> P j))"

definition two_digits :: "ustring \<Rightarrow> nat \<Rightarrow> int" where
  \<comment> \<open>the number written by the two digits at indices \<open>i\<close> and \<open>i + 1\<close>\<close>
  "two_digits t i = 10 * digit_val (t ! i) + digit_val (t ! (i + 1))"

definition in_bound :: "config \<Rightarrow> int \<Rightarrow> bool" where
  "in_bound cfg y = (start_year cfg \<le> y \<and> y \<le> end_year cfg)"

definition month_numbers :: "ustring list" where
  "month_numbers =
     map str [''01'', ''02'', ''03'', ''04'', ''05'', ''06'', ''07'', ''08'', ''09'',
              ''10'', ''11'', ''12'']"

definition ascii_digit :: "nat \<Rightarrow> bool" where
  \<comment> \<open>one of the digits \<open>0\<close> to \<open>9\<close> of ISO 8601\<close>
  "ascii_digit c = (ch CHR ''0'' \<le> c \<and> c \<le> ch CHR ''9'')"

definition declares_markup :: "ustring \<Rightarrow> bool" where
  \<comment> \<open>in the words of the specification: the declared content type is that of a markup
      page, HTML or XHTML. Media types are compared ignoring case\<close>
  "declares_markup ct =
     (contains (str ''text/html'') (lower_ascii ct)
      \<or> contains (str ''application/xhtml+xml'') (lower_ascii ct))"

definition registry_write_event :: "event \<Rightarrow> bool" where
  \<comment> \<open>\<open>_save_registry\<close> ran: the file was rewritten, or the write failed and was logged\<close>
  "registry_write_event e = (e = RegistrySaved \<or> e = RegistrySaveFailed)"

definition count_saves :: "event list \<Rightarrow> nat" where
  \<comment> \<open>how many times \<open>_save_registry\<close> ran\<close>
  "count_saves tr = length (filter registry_write_event tr)"

definition count_found :: "event list \<Rightarrow> nat" where
  \<comment> \<open>how many pages gave new competitions\<close>
  "count_found tr = length (filter (\<lambda>e. case e of Found n \<Rightarrow> True | _ \<Rightarrow> False) tr)"

definition justified :: "ustring set \<Rightarrow> scraper \<Rightarrow> bool" where
  \<comment> \<open>every downloaded URL was loaded with the registry (\<open>D0\<close>), or the run found its
      target file on disk, or the run wrote its body\<close>
  "justified D0 s =
     (\<forall>u \<in> downloaded_files s.
        u \<in> D0 \<or> (\<exists>p. FileExists u p \<in> set (trace s)) \<or> (\<exists>p. Downloaded u p \<in> set (trace s)))"

definition transfer_succeeds :: "world \<Rightarrow> ustring \<Rightarrow> path \<Rightarrow> scraper \<Rightarrow> bool" where
  \<comment> \<open>the request for \<open>u\<close> sent from \<open>s\<close> is answered, the answer does not declare
      \<open>text/html\<close>, and its body is written\<close>
  "transfer_succeeds w u p s =
     (case fetch w (nreq s) u of
        None \<Rightarrow> False
      | Some r \<Rightarrow> \<not> contains (str ''text/html'') (content_type r)
                  \<and> write_body w (nreq s) p = Written)"

definition not_revisited :: "ustring set \<Rightarrow> scraper \<Rightarrow> bool" where
  \<comment> \<open>the identifiers of \<open>P0\<close> are still marked processed and no competition with one of
      them has entered \<open>_process_competition\<close>\<close>
  "not_revisited P0 s =
     (P0 \<subseteq> processed_competitions s \<and> \<not> (\<exists>cid \<in> P0. Competition cid \<in> set (trace s)))"

definition transfer_event :: "event \<Rightarrow> bool" where
  \<comment> \<open>the events of a request or of the handling of one file\<close>
  "transfer_event e =
     (case e of
        Requested u \<Rightarrow> True
      | AlreadyDownloaded u \<Rightarrow> True
      | FileExists u p \<Rightarrow> True
      | NotZip u \<Rightarrow> True
      | Downloaded u p \<Rightarrow> True
      | SaveError u \<Rightarrow> True
      | _ \<Rightarrow> False)"

section \<open>Example inputs\<close>

definition cfg_example :: config where
  "cfg_example =
     \<lparr>output_base_dir = map str [''data'', ''raw'', ''FMN'', ''natacion''],
      start_year = 2018, end_year = 2026, max_pages = 8\<rparr>"

definition cfg_one_page :: config where
  "cfg_one_page = cfg_example\<lparr>max_pages := 1\<rparr>"

definition s_fresh :: scraper where
  \<comment> \<open>the scraper after a constructor that found no registry\<close>
  "s_fresh =
     \<lparr>processed_competitions = {}, downloaded_files = {}, pages_scraped = 0,
      competitions_found = 0, competitions_already_downloaded = 0, competitions_with_res = 0,
      files_downloaded = 0, files_skipped = 0, errors = 0, files = {}, nreq = 0, ntitles = 0,
      nsaves = 0, trace = []\<rparr>"

definition s_rerun :: scraper where
  \<comment> \<open>the scraper after a constructor that loaded a registry with one competition\<close>
  "s_rerun = s_fresh\<lparr>processed_competitions := {str ''7''}\<rparr>"

definition c_open :: competition where
  "c_open = \<lparr>comp_id = str ''7'',
             url = BASE_URL @ str ''/index.php/competiciones-natacion/7-open'',
             title = str ''Open 25-26'', season_year = 2025\<rparr>"

definition calendar_page :: response where
  \<comment> \<open>a page of the calendar that lists competition 7\<close>
  "calendar_page =
     Response [Anchor (str ''/index.php/competiciones-natacion/7-open'')
                 (str ''Open 25-26 Jornada 1'')]
       [] (str ''text/html'')"

definition detail_page :: response where
  \<comment> \<open>a detail page with a date and a \<open>.res\<close> link\<close>
  "detail_page =
     Response [Anchor (str ''/res/open.zip'') (str ''.res'')]
       (str ''Sabado, 31 de Enero de 2026'') (str ''text/html'')"

definition empty_page :: response where
  \<comment> \<open>a page with no link\<close>
  "empty_page = Response [] [] (str ''text/html'')"

definition answers :: "(nat \<Rightarrow> response) \<Rightarrow> world" where
  \<comment> \<open>the world in which the \<open>n\<close>-th request is answered by the given response, every
      write succeeds, the year is 2026 and a URL is joined by appending\<close>
  "answers f =
     \<lparr>fetch = (\<lambda>n u. Some (f n)),
      write_body = (\<lambda>n p. Written),
      registry_write = (\<lambda>n. True),
      now_year = (\<lambda>n. 2026),
      urljoin = (\<lambda>base h. base @ h)\<rparr>"

definition w_dated :: world where
  \<comment> \<open>the first answer is a detail page, the later ones are archives\<close>
  "w_dated =
     answers (\<lambda>n. if n = 0 then detail_page else Response [] [] (str ''application/zip''))"

definition w_html :: world where
  \<comment> \<open>every answer is a page of markup with no link\<close>
  "w_html = answers (\<lambda>n. Response [] [] (str ''text/html; charset=utf-8''))"

definition w_html_upper :: world where
  \<comment> \<open>every answer declares HTML in capitals\<close>
  "w_html_upper = answers (\<lambda>n. Response [] [] (str ''TEXT/HTML; charset=UTF-8''))"

definition w_xhtml :: world where
  \<comment> \<open>every answer declares XHTML\<close>
  "w_xhtml = answers (\<lambda>n. Response [] [] (str ''application/xhtml+xml''))"

definition w_rerun :: world where
  \<comment> \<open>the first answer is a calendar page that lists competition 7, every later answer is
      a page with no links at all\<close>
  "w_rerun = answers (\<lambda>n. if n = 0 then calendar_page else empty_page)"

definition w_calendar :: world where
  \<comment> \<open>the first answer is a calendar page that lists competition 7, the second is its
      detail page, the later ones are archives\<close>
  "w_calendar =
     answers (\<lambda>n. if n = 0 then calendar_page
                   else if n = 1 then detail_page
                   else Response [] [] (str ''application/zip''))"

definition fullwidth_date :: ustring where
  \<comment> \<open>the text \<open>Sabado, 31 de Enero de 2026\<close> with its digits written in the full-width
      forms U+FF10 to U+FF19\<close>
  "fullwidth_date =
     str ''Sabado, '' @ [0xFF13, 0xFF11] @ str '' de Enero de '' @ [0xFF12, 0xFF10, 0xFF12, 0xFF16]"

section \<open>Literals\<close>

lemma str_simps: "str [] = []" "str (c # cs) = of_char c # str cs"
  by (simp_all add: str_def)

lemma str_append: "str (a @ b) = str a @ str b"
  by (simp add: str_def)

section \<open>File names\<close>

lemma sub_runs_set: "set (sub_runs C s) \<subseteq> {c \<in> set s. \<not> C c} \<union> {ch CHR ''_''}"
proof (induction C s rule: sub_runs.induct)
  case (1 C)
  then show ?case by simp
next
  case (2 C c cs)
  show ?case
  proof (cases "C c")
    case True
    have "set (dropWhile C cs) \<subseteq> set cs" by (rule set_dropWhileD[THEN subsetI]) 
    with True 2(1) show ?thesis by auto
  next
    case False
    with 2(2) show ?thesis by auto
  qed
qed

lemma sub_runs_head:
  "r = [] \<or> hd r \<noteq> ch CHR ''_'' \<Longrightarrow>
   sub_runs (\<lambda>c. c = ch CHR ''_'') r = [] \<or> hd (sub_runs (\<lambda>c. c = ch CHR ''_'') r) \<noteq> ch CHR ''_''"
  by (cases r) auto

lemma dropWhile_head: "dropWhile C cs = [] \<or> \<not> C (hd (dropWhile C cs))"
  by (induction cs) auto

lemma nau_Cons:
  "no_adjacent_underscores (a # xs) =
     ((xs = [] \<or> \<not> (a = ch CHR ''_'' \<and> hd xs = ch CHR ''_'')) \<and> no_adjacent_underscores xs)"
  by (cases xs) auto

lemma sub_runs_underscores: "no_adjacent_underscores (sub_runs (\<lambda>c. c = ch CHR ''_'') s)"
proof (induction "\<lambda>c. c = ch CHR ''_''" s rule: sub_runs.induct)
  case 1
  then show ?case by simp
next
  case (2 c cs)
  show ?case
  proof (cases "c = ch CHR ''_''")
    case True
    let ?r = "dropWhile (\<lambda>c. c = ch CHR ''_'') cs"
    have h: "sub_runs (\<lambda>c. c = ch CHR ''_'') ?r = []
             \<or> hd (sub_runs (\<lambda>c. c = ch CHR ''_'') ?r) \<noteq> ch CHR ''_''"
      by (rule sub_runs_head) (rule dropWhile_head)
    from True 2(1) have "no_adjacent_underscores (sub_runs (\<lambda>c. c = ch CHR ''_'') ?r)" by simp
    with h True show ?thesis by (simp add: nau_Cons)
  next
    case False
    with 2(2) show ?thesis by (simp add: nau_Cons)
  qed
qed

lemma nau_drop: "no_adjacent_underscores xs \<Longrightarrow> no_adjacent_underscores (drop n xs)"
proof (induction n arbitrary: xs)
  case 0 then show ?case by simp
next
  case (Suc n)
  then show ?case by (cases xs) (auto simp: nau_Cons)
qed

lemma nau_take: "no_adjacent_underscores xs \<Longrightarrow> no_adjacent_underscores (take n xs)"
proof (induction xs arbitrary: n)
  case Nil
  then show ?case by simp
next
  case (Cons a xs)
  show ?case
  proof (cases n)
    case 0
    then show ?thesis by simp
  next
    case (Suc m)
    from Cons.prems have p: "xs = [] \<or> \<not> (a = ch CHR ''_'' \<and> hd xs = ch CHR ''_'')"
      and q: "no_adjacent_underscores xs"
      by (simp_all add: nau_Cons)
    have h: "take m xs = [] \<or> hd (take m xs) = hd xs"
      by (cases m; cases xs) simp_all
    from Cons.IH[OF q] have r: "no_adjacent_underscores (take m xs)" .
    have "take m xs = [] \<or> \<not> (a = ch CHR ''_'' \<and> hd (take m xs) = ch CHR ''_'')"
      using p h by (cases "take m xs = []") auto
    with r Suc show ?thesis by (simp add: nau_Cons)
  qed
qed

lemma strip_chars_take_drop:
  "\<exists>j k. py_strip_chars chars s = take k (drop j s)"
proof -
  let ?P = "\<lambda>c. c \<in> set chars"
  let ?a = "dropWhile ?P s"
  have a: "?a = drop (length (takeWhile ?P s)) s" by (rule dropWhile_eq_drop)
  have "rev (dropWhile ?P (rev ?a)) = rev (drop (length (takeWhile ?P (rev ?a))) (rev ?a))"
    by (simp add: dropWhile_eq_drop[symmetric])
  also have "\<dots> = take (length ?a - length (takeWhile ?P (rev ?a))) ?a"
    by (simp add: rev_drop)
  finally have "py_strip_chars chars s = take (length ?a - length (takeWhile ?P (rev ?a))) ?a"
    by (simp add: py_strip_chars_def)
  with a show ?thesis by metis
qed

lemma sanitize_take:
  "sanitize_filename name =
     take 100 (py_strip_chars (str ''._-'')
       (sub_runs (\<lambda>c. c = ch CHR ''_'') (sub_runs is_space (sub_invalid name))))"
  by (simp add: sanitize_filename_def Let_def)

lemma sanitize_shape:
  "\<exists>j k. sanitize_filename name =
     take k (drop j (sub_runs (\<lambda>c. c = ch CHR ''_'') (sub_runs is_space (sub_invalid name))))"
proof -
  let ?u = "sub_runs (\<lambda>c. c = ch CHR ''_'') (sub_runs is_space (sub_invalid name))"
  obtain j k where jk: "py_strip_chars (str ''._-'') ?u = take k (drop j ?u)"
    using strip_chars_take_drop by blast
  have "sanitize_filename name = take 100 (take k (drop j ?u))"
    by (simp only: sanitize_take jk)
  then have "sanitize_filename name = take (min 100 k) (drop j ?u)"
    by (simp only: take_take)
  then show ?thesis by blast
qed

lemma sanitize_subset:
  "set (sanitize_filename name) \<subseteq>
     set (sub_runs (\<lambda>c. c = ch CHR ''_'') (sub_runs is_space (sub_invalid name)))"
proof -
  let ?u = "sub_runs (\<lambda>c. c = ch CHR ''_'') (sub_runs is_space (sub_invalid name))"
  obtain j k where "sanitize_filename name = take k (drop j ?u)"
    using sanitize_shape by blast
  then have "set (sanitize_filename name) \<subseteq> set (drop j ?u)"
    by (simp add: set_take_subset)
  also have "\<dots> \<subseteq> set ?u" by (rule set_drop_subset)
  finally show ?thesis .
qed

lemma underscore_not_space: "\<not> is_space (ch CHR ''_'')"
  by (simp add: is_space_def space_ranges_def)

lemma underscore_not_invalid: "ch CHR ''_'' \<notin> set invalid_chars"
  by (simp add: invalid_chars_def str_def)

lemma sub_invalid_set: "set (sub_invalid name) \<inter> set invalid_chars = {}"
  using underscore_not_invalid by (auto simp: sub_invalid_def)

lemma sanitize_chars:
  assumes "c \<in> set (sanitize_filename name)"
  shows "\<not> is_space c \<and> c \<notin> set invalid_chars"
proof -
  let ?a = "sub_invalid name"
  let ?b = "sub_runs is_space ?a"
  let ?d = "sub_runs (\<lambda>c. c = ch CHR ''_'') ?b"
  from assms sanitize_subset have "c \<in> set ?d" by blast
  then have cb: "c \<in> set ?b \<or> c = ch CHR ''_''" using sub_runs_set[of "\<lambda>c. c = ch CHR ''_''" ?b] by auto
  have "c = ch CHR ''_'' \<or> (c \<in> set ?a \<and> \<not> is_space c)"
    using cb sub_runs_set[of is_space ?a] by auto
  then show ?thesis
    using sub_invalid_set[of name] underscore_not_space underscore_not_invalid by auto
qed

lemma sanitize_length: "length (sanitize_filename name) \<le> 100"
  by (simp add: sanitize_take)

lemma sanitize_underscores: "no_adjacent_underscores (sanitize_filename name)"
proof -
  obtain j k where "sanitize_filename name =
     take k (drop j (sub_runs (\<lambda>c. c = ch CHR ''_'') (sub_runs is_space (sub_invalid name))))"
    using sanitize_shape by blast
  then show ?thesis by (simp only: nau_take nau_drop sub_runs_underscores)
qed

text \<open>
  Claim C10. For every input string the sanitized name has at most 100 characters,
  contains none of the characters \<open>< > : " / \ | ? *\<close>, contains no white space, and has no
  two underscores next to one another (runs of white space and runs of underscores were
  collapsed to one underscore before the ends were stripped and the name was cut).
\<close>

theorem sanitize_filename_bounds:
  "length (sanitize_filename name) \<le> 100
   \<and> (\<forall>c \<in> set (sanitize_filename name). c \<notin> set invalid_chars \<and> \<not> is_space c)
   \<and> no_adjacent_underscores (sanitize_filename name)"
  using sanitize_length sanitize_chars sanitize_underscores by blast

theorem sanitize_filename_bounds_witness:
  "sanitize_filename (str ''  Open: 22-23 / Jornada__1?.  '') = str ''Open_22-23_Jornada_1''
   \<and> length (sanitize_filename (str ''  Open: 22-23 / Jornada__1?.  '')) \<le> 100
   \<and> \<not> (\<exists>c \<in> set (sanitize_filename (str ''  Open: 22-23 / Jornada__1?.  '')).
            c \<in> set invalid_chars \<or> is_space c)
   \<and> no_adjacent_underscores (sanitize_filename (str ''  Open: 22-23 / Jornada__1?.  ''))"
proof -
  have "sanitize_filename (str ''  Open: 22-23 / Jornada__1?.  '') = str ''Open_22-23_Jornada_1''"
    by code_simp
  then show ?thesis
    using sanitize_filename_bounds [of "str ''  Open: 22-23 / Jornada__1?.  ''"] by blast
qed

section \<open>Dates of competitions\<close>

lemma match_day_digits:
  "match_day s = Some (d, r) \<Longrightarrow>
   (length d = 1 \<or> length d = 2) \<and> list_all is_digit d \<and> set d \<subseteq> set s \<and> set r \<subseteq> set s"
  by (auto simp: match_day_def split: list.splits if_splits)

lemma match_year4_digits:
  "match_year4 s = Some y \<Longrightarrow> length y = 4 \<and> list_all is_digit y \<and> set y \<subseteq> set s"
  by (auto simp: match_year4_def split: list.splits if_splits)

lemma match_spaces_rest: "match_spaces s = Some r \<Longrightarrow> set r \<subseteq> set s"
  by (auto simp: match_spaces_def split: list.splits if_splits dest: set_dropWhileD)

lemma match_de_rest: "match_de s = Some r \<Longrightarrow> set r \<subseteq> set s"
  by (auto simp: match_de_def split: list.splits if_splits)

lemma match_word_rest: "match_word s = Some (m, r) \<Longrightarrow> set r \<subseteq> set s"
  by (auto simp: match_word_def split: list.splits if_splits dest: set_dropWhileD)

lemma match_date_at_digits:
  assumes "match_date_at s = Some (d, m, y)"
  shows "(length d = 1 \<or> length d = 2) \<and> list_all is_digit d \<and> set d \<subseteq> set s
         \<and> length y = 4 \<and> list_all is_digit y \<and> set y \<subseteq> set s"
proof -
  from assms obtain s1 s2 s3 s4 s5 s6 s7 s8 where
    a: "match_day s = Some (d, s1)" and b: "match_spaces s1 = Some s2"
    and c: "match_de s2 = Some s3" and e: "match_spaces s3 = Some s4"
    and f: "match_word s4 = Some (m, s5)" and g: "match_spaces s5 = Some s6"
    and h: "match_de s6 = Some s7" and i: "match_spaces s7 = Some s8"
    and j: "match_year4 s8 = Some y"
    by (auto simp: match_date_at_def split: option.splits prod.splits)
  have "set s8 \<subseteq> set s"
    using match_day_digits[OF a] match_spaces_rest[OF b] match_de_rest[OF c]
      match_spaces_rest[OF e] match_word_rest[OF f] match_spaces_rest[OF g]
      match_de_rest[OF h] match_spaces_rest[OF i]
    by blast
  with match_day_digits[OF a] match_year4_digits[OF j] show ?thesis by blast
qed

lemma search_date_first:
  "search_date t = Some r \<Longrightarrow>
   \<exists>i. i < length t \<and> match_date_at (drop i t) = Some r \<and> (\<forall>j<i. match_date_at (drop j t) = None)"
proof (induction t)
  case Nil
  then show ?case by simp
next
  case (Cons c cs)
  show ?case
  proof (cases "match_date_at (c # cs)")
    case (Some m)
    with Cons.prems have "match_date_at (drop 0 (c # cs)) = Some r" by simp
    then show ?thesis by (intro exI[of _ 0]) simp
  next
    case None
    with Cons.prems have "search_date cs = Some r" by simp
    with Cons.IH obtain i where i: "i < length cs" "match_date_at (drop i cs) = Some r"
      "\<forall>j<i. match_date_at (drop j cs) = None" by blast
    have "\<forall>j<Suc i. match_date_at (drop j (c # cs)) = None"
    proof (intro allI impI)
      fix j assume "j < Suc i"
      then show "match_date_at (drop j (c # cs)) = None"
        using None i(3) by (cases j) auto
    qed
    with i(1,2) show ?thesis by (intro exI[of _ "Suc i"]) simp
  qed
qed

lemma months_es_numbers: "map_of months_es k = Some mm \<Longrightarrow> mm \<in> set month_numbers"
  by (auto simp: months_es_def month_numbers_def split: if_splits)

lemma zero_is_digit: "is_digit (ch CHR ''0'')" "ascii_digit (ch CHR ''0'')"
  by (simp_all add: is_digit_def decimal_ranges_def ascii_digit_def)

lemma zfill_day:
  "(length d = 1 \<or> length d = 2) \<Longrightarrow> list_all P d \<Longrightarrow> P (ch CHR ''0'') \<Longrightarrow>
   length (py_zfill 2 d) = 2 \<and> list_all P (py_zfill 2 d)"
  by (cases d) (auto simp: py_zfill_def)

text \<open>
  Claim C9, as stated, fails: the digit class of the pattern holds the decimal digits of
  every script, so a date written with full-width digits is extracted with those
  digits, and the result is not an ISO date.
\<close>

theorem extract_date_fullwidth:
  "extract_date_from_page fullwidth_date
     = Some ([0xFF12, 0xFF10, 0xFF12, 0xFF16] @ str ''-01-'' @ [0xFF13, 0xFF11])
   \<and> \<not> ascii_digit 0xFF12"
  by code_simp

text \<open>
  Claim C9, amended. For every page text, date extraction gives no date, or the string
  \<open>year-mm-day\<close> read off the leftmost match of the long-form date phrase: the year is
  the four decimal digits matched, \<open>mm\<close> is one of \<open>01\<close> to \<open>12\<close> and is what the table of
  month names gives for the lower-cased name, and the day is the one or two decimal
  digits matched, padded with the digit \<open>0\<close> to two characters. The digits are decimal
  digits of any script; when every decimal digit of the text is one of \<open>0\<close> to \<open>9\<close>, so
  are those of the year and of the day, and the string is an ISO date.
\<close>

theorem extract_date_format:
  "extract_date_from_page text = None \<or>
   (\<exists>i day month_name year mm.
      match_date_at (drop i text) = Some (day, month_name, year)
      \<and> (\<forall>j<i. match_date_at (drop j text) = None)
      \<and> map_of months_es (lower_ascii month_name) = Some mm
      \<and> extract_date_from_page text = Some (year @ str ''-'' @ mm @ str ''-'' @ py_zfill 2 day)
      \<and> length year = 4 \<and> list_all is_digit year
      \<and> mm \<in> set month_numbers
      \<and> (length day = 1 \<or> length day = 2) \<and> list_all is_digit day
      \<and> length (py_zfill 2 day) = 2 \<and> list_all is_digit (py_zfill 2 day)
      \<and> ((\<forall>c \<in> set text. is_digit c \<longrightarrow> ascii_digit c) \<longrightarrow>
           list_all ascii_digit year \<and> list_all ascii_digit (py_zfill 2 day)))"
proof (cases "extract_date_from_page text")
  case None
  then show ?thesis by simp
next
  case (Some ds)
  then obtain d m y mm where sd: "search_date text = Some (d, m, y)"
    and mm: "map_of months_es (lower_ascii m) = Some mm"
    and ds: "ds = y @ str ''-'' @ mm @ str ''-'' @ py_zfill 2 d"
    by (auto simp: extract_date_from_page_def Let_def split: option.splits prod.splits)
  from search_date_first[OF sd] obtain i where
    i: "match_date_at (drop i text) = Some (d, m, y)" "\<forall>j<i. match_date_at (drop j text) = None"
    by blast
  from match_date_at_digits[OF i(1)] have
    dg: "length d = 1 \<or> length d = 2" "list_all is_digit d" "length y = 4" "list_all is_digit y"
    and sub: "set d \<subseteq> set (drop i text)" "set y \<subseteq> set (drop i text)"
    by simp_all
  from zfill_day[OF dg(1,2) zero_is_digit(1)] have
    z: "length (py_zfill 2 d) = 2" "list_all is_digit (py_zfill 2 d)"
    by simp_all
  have ascii: "(\<forall>c \<in> set text. is_digit c \<longrightarrow> ascii_digit c) \<longrightarrow>
               list_all ascii_digit y \<and> list_all ascii_digit (py_zfill 2 d)"
  proof
    assume a: "\<forall>c \<in> set text. is_digit c \<longrightarrow> ascii_digit c"
    have "set (drop i text) \<subseteq> set text" by (rule set_drop_subset)
    with sub have "set d \<subseteq> set text" "set y \<subseteq> set text" by blast+
    with a dg(2,4) have "list_all ascii_digit d" "list_all ascii_digit y"
      by (auto simp: list_all_iff)
    with zfill_day[of d ascii_digit] dg(1) zero_is_digit(2)
    show "list_all ascii_digit y \<and> list_all ascii_digit (py_zfill 2 d)" by blast
  qed
  have "extract_date_from_page text = Some (y @ str ''-'' @ mm @ str ''-'' @ py_zfill 2 d)"
    using Some ds by simp
  with i mm dg z ascii months_es_numbers[OF mm] show ?thesis by blast
qed

theorem extract_date_format_witness:
  "extract_date_from_page (str ''Sabado, 31 de Enero de 2026'') = Some (str ''2026-01-31'')
   \<and> \<not> (\<exists>c \<in> set (str ''Sabado, 31 de Enero de 2026''). is_digit c \<and> \<not> ascii_digit c)
   \<and> (\<exists>day year mm.
        extract_date_from_page (str ''Sabado, 31 de Enero de 2026'')
          = Some (year @ str ''-'' @ mm @ str ''-'' @ py_zfill 2 day)
        \<and> length year = 4 \<and> list_all ascii_digit year
        \<and> mm \<in> set month_numbers
        \<and> length (py_zfill 2 day) = 2 \<and> list_all ascii_digit (py_zfill 2 day))"
proof -
  have e: "extract_date_from_page (str ''Sabado, 31 de Enero de 2026'') = Some (str ''2026-01-31'')"
    by code_simp
  have a: "\<not> (\<exists>c \<in> set (str ''Sabado, 31 de Enero de 2026''). is_digit c \<and> \<not> ascii_digit c)"
    by code_simp
  from e extract_date_format [of "str ''Sabado, 31 de Enero de 2026''"]
  obtain day year mm where
    "extract_date_from_page (str ''Sabado, 31 de Enero de 2026'')
          = Some (year @ str ''-'' @ mm @ str ''-'' @ py_zfill 2 day)"
    "length year = 4" "mm \<in> set month_numbers" "length (py_zfill 2 day) = 2"
    "(\<forall>c \<in> set (str ''Sabado, 31 de Enero de 2026''). is_digit c \<longrightarrow> ascii_digit c) \<longrightarrow>
           list_all ascii_digit year \<and> list_all ascii_digit (py_zfill 2 day)"
    by auto
  with e a show ?thesis by blast
qed

section \<open>Season years\<close>

lemma season_at_Suc: "season_at (x # t) (Suc i) = season_at t i"
  by (simp add: season_at_def add.commute)

lemma season_at_0:
  "season_at (a # b # c # d # e # rest) 0 =
     (is_digit a \<and> is_digit b \<and> c = ch CHR ''-'' \<and> is_digit d \<and> is_digit e)"
  by (simp add: season_at_def)

lemma season_at_short: "length t < 5 \<Longrightarrow> \<not> season_at t i"
  by (simp add: season_at_def)

lemma search_season_None: "search_season t = None \<Longrightarrow> \<not> season_at t i"
proof (induction t arbitrary: i rule: search_season.induct)
  case (1 a b c d e rest)
  show ?case
  proof (cases i)
    case 0
    with 1(2) show ?thesis by (auto simp: season_at_0 split: if_splits)
  next
    case (Suc j)
    from 1(2) have "search_season (b # c # d # e # rest) = None" by (simp split: if_splits)
    with 1 have "\<not> season_at (b # c # d # e # rest) j" by (simp split: if_splits)
    with Suc show ?thesis by (simp add: season_at_Suc)
  qed
qed (simp_all add: season_at_short)

lemma search_season_Some:
  "search_season t = Some nn \<Longrightarrow>
   \<exists>i. first_at (season_at t) i \<and> nn = [t ! i, t ! (i + 1)]"
proof (induction t rule: search_season.induct)
  case (1 a b c d e rest)
  let ?t = "a # b # c # d # e # rest"
  show ?case
  proof (cases "season_at ?t 0")
    case True
    with 1(2) have "nn = [a, b]" by (simp add: season_at_0)
    with True show ?thesis by (intro exI[of _ 0]) (simp add: first_at_def)
  next
    case False
    with 1 obtain i where i: "first_at (season_at (tl ?t)) i" "nn = [tl ?t ! i, tl ?t ! (i + 1)]"
      by (auto simp: season_at_0 split: if_splits)
    have "first_at (season_at ?t) (Suc i)"
      unfolding first_at_def
    proof (intro conjI allI impI)
      show "season_at ?t (Suc i)" using i(1) by (simp add: season_at_Suc first_at_def)
    next
      fix j assume "j < Suc i"
      then show "\<not> season_at ?t j"
        using False i(1) by (cases j) (auto simp: season_at_Suc first_at_def)
    qed
    with i(2) show ?thesis by (intro exI[of _ "Suc i"]) simp
  qed
qed simp_all

lemma first_at_unique: "first_at P i \<Longrightarrow> first_at P k \<Longrightarrow> i = k"
  unfolding first_at_def by (meson linorder_neqE_nat)

lemma search_season_first:
  assumes "first_at (season_at t) i"
  shows "search_season t = Some [t ! i, t ! (i + 1)]"
proof (cases "search_season t")
  case None
  with assms search_season_None show ?thesis by (auto simp: first_at_def)
next
  case (Some nn)
  from search_season_Some[OF Some] obtain k where
    k: "first_at (season_at t) k" "nn = [t ! k, t ! (k + 1)]" by blast
  from first_at_unique[OF assms k(1)] have "i = k" .
  with Some k(2) show ?thesis by simp
qed

lemma year20_at_Suc: "year20_at (x # t) (Suc i) = year20_at t i"
  by (simp add: year20_at_def add.commute)

lemma year20_at_0:
  "year20_at (a # b # c # d # rest) 0 =
     (a = ch CHR ''2'' \<and> b = ch CHR ''0'' \<and> is_digit c \<and> is_digit d)"
  by (simp add: year20_at_def)

lemma year20_at_short: "length t < 4 \<Longrightarrow> \<not> year20_at t i"
  by (simp add: year20_at_def)

lemma search_year20_None: "search_year20 t = None \<Longrightarrow> \<not> year20_at t i"
proof (induction t arbitrary: i rule: search_year20.induct)
  case (1 a b c d rest)
  show ?case
  proof (cases i)
    case 0
    with 1(2) show ?thesis by (auto simp: year20_at_0 split: if_splits)
  next
    case (Suc j)
    from 1(2) have "search_year20 (b # c # d # rest) = None" by (simp split: if_splits)
    with 1 have "\<not> year20_at (b # c # d # rest) j" by (simp split: if_splits)
    with Suc show ?thesis by (simp add: year20_at_Suc)
  qed
qed (simp_all add: year20_at_short)

lemma search_year20_Some:
  "search_year20 t = Some y \<Longrightarrow>
   \<exists>i. first_at (year20_at t) i \<and> y = [ch CHR ''2'', ch CHR ''0'', t ! (i + 2), t ! (i + 3)]"
proof (induction t rule: search_year20.induct)
  case (1 a b c d rest)
  let ?t = "a # b # c # d # rest"
  show ?case
  proof (cases "year20_at ?t 0")
    case True
    with 1(2) have "y = [ch CHR ''2'', ch CHR ''0'', c, d]" by (auto simp: year20_at_0)
    with True show ?thesis by (intro exI[of _ 0]) (simp add: first_at_def)
  next
    case False
    with 1 obtain i where i: "first_at (year20_at (tl ?t)) i"
      "y = [ch CHR ''2'', ch CHR ''0'', tl ?t ! (i + 2), tl ?t ! (i + 3)]"
      by (auto simp: year20_at_0 split: if_splits)
    have "first_at (year20_at ?t) (Suc i)"
      unfolding first_at_def
    proof (intro conjI allI impI)
      show "year20_at ?t (Suc i)" using i(1) by (simp add: year20_at_Suc first_at_def)
    next
      fix j assume "j < Suc i"
      then show "\<not> year20_at ?t j"
        using False i(1) by (cases j) (auto simp: year20_at_Suc first_at_def)
    qed
    with i(2) show ?thesis by (intro exI[of _ "Suc i"]) simp
  qed
qed simp_all

lemma search_year20_first:
  assumes "first_at (year20_at t) i"
  shows "search_year20 t = Some [ch CHR ''2'', ch CHR ''0'', t ! (i + 2), t ! (i + 3)]"
proof (cases "search_year20 t")
  case None
  with assms search_year20_None show ?thesis by (auto simp: first_at_def)
next
  case (Some y)
  from search_year20_Some[OF Some] obtain k where
    k: "first_at (year20_at t) k" "y = [ch CHR ''2'', ch CHR ''0'', t ! (k + 2), t ! (k + 3)]" by blast
  from first_at_unique[OF assms k(1)] have "i = k" .
  with Some k(2) show ?thesis by simp
qed

lemma first_at_list: "first_at P i = (P i \<and> list_all (\<lambda>j. \<not> P j) [0..<i])"
  by (auto simp: first_at_def list_all_iff)

lemma digit_val_20: "digit_val (ch CHR ''2'') = 2" "digit_val (ch CHR ''0'') = 0"
  by (simp_all add: digit_val_def decimal_ranges_def)

lemma py_int_20:
  "py_int [ch CHR ''2'', ch CHR ''0'', c, d] = 2000 + (10 * digit_val c + digit_val d)"
  using digit_val_20 by (simp add: py_int_def)

lemma py_int_season: "py_int (str ''20'' @ [t ! i, t ! (i + 1)]) = 2000 + two_digits t i"
  using py_int_20 by (simp add: two_digits_def str_def)

lemma py_int_year20: 
  "py_int [ch CHR ''2'', ch CHR ''0'', t ! (i + 2), t ! (i + 3)] = 2000 + two_digits t (i + 2)"
  using py_int_20 by (simp add: two_digits_def numeral_3_eq_3 add.commute)

lemma extract_year_season:
  assumes "first_at (season_at t) i" "in_bound cfg (2000 + two_digits t i)"
  shows "extract_year_from_text cfg now t = 2000 + two_digits t i"
  using search_season_first[OF assms(1)] assms(2) py_int_season[of t i]
  by (simp add: extract_year_from_text_def Let_def in_bound_def)

lemma extract_year_fallthrough:
  assumes "(\<forall>i. \<not> season_at t i) \<or> (first_at (season_at t) i \<and> \<not> in_bound cfg (2000 + two_digits t i))"
  shows "extract_year_from_text cfg now t = (case search_year20 t of Some y \<Rightarrow> py_int y | None \<Rightarrow> now)"
proof (cases "search_season t")
  case None
  then show ?thesis by (simp add: extract_year_from_text_def Let_def)
next
  case (Some nn)
  from search_season_Some[OF Some] obtain k where
    k: "first_at (season_at t) k" "nn = [t ! k, t ! (k + 1)]" by blast
  with assms have i: "first_at (season_at t) i" "\<not> in_bound cfg (2000 + two_digits t i)"
    by (auto simp: first_at_def)
  from first_at_unique[OF i(1) k(1)] have "i = k" .
  with Some k(2) i(2) py_int_season[of t i] show ?thesis
    by (auto simp: extract_year_from_text_def Let_def in_bound_def)
qed

text \<open>
  Claim C6. For every title: when the first season pattern \<open>NN-MM\<close> of the title starts
  at index \<open>i\<close> and \<open>2000 + NN\<close> lies inside the configured bound, the inferred year is
  \<open>2000 + NN\<close>; when the title has no season pattern, or the first one is out of the
  bound, the inferred year is the first group of four digits that begins with \<open>20\<close>, if
  there is one, and the current year otherwise. The title of the federation's open with
  \<open>22-23\<close> gives 2022 (when 2022 is inside the bound), a title with \<open>2024\<close> and no season
  gives 2024, and a title with neither gives the current year.
\<close>

theorem season_year_inference:
  "(first_at (season_at t) i \<and> in_bound cfg (2000 + two_digits t i)
      \<longrightarrow> extract_year_from_text cfg now t = 2000 + two_digits t i)
   \<and> (((\<forall>i. \<not> season_at t i)
        \<or> (first_at (season_at t) i \<and> \<not> in_bound cfg (2000 + two_digits t i)))
       \<and> first_at (year20_at t) k
      \<longrightarrow> extract_year_from_text cfg now t = 2000 + two_digits t (k + 2))
   \<and> (((\<forall>i. \<not> season_at t i)
        \<or> (first_at (season_at t) i \<and> \<not> in_bound cfg (2000 + two_digits t i)))
       \<and> (\<forall>k. \<not> year20_at t k)
      \<longrightarrow> extract_year_from_text cfg now t = now)
   \<and> (in_bound cfg 2022
      \<longrightarrow> extract_year_from_text cfg now (NATACION @ str '' Open 22-23 Jornada 1'') = 2022)
   \<and> extract_year_from_text cfg now (str ''Trofeo 2024'') = 2024
   \<and> extract_year_from_text cfg now (str ''Trofeo de Invierno'') = now"
proof (intro conjI impI)
  assume "first_at (season_at t) i \<and> in_bound cfg (2000 + two_digits t i)"
  then show "extract_year_from_text cfg now t = 2000 + two_digits t i"
    using extract_year_season by blast
next
  assume a: "((\<forall>i. \<not> season_at t i)
        \<or> (first_at (season_at t) i \<and> \<not> in_bound cfg (2000 + two_digits t i)))
       \<and> first_at (year20_at t) k"
  then have "extract_year_from_text cfg now t = (case search_year20 t of Some y \<Rightarrow> py_int y | None \<Rightarrow> now)"
    using extract_year_fallthrough by blast
  with a search_year20_first[of t k] py_int_year20[of t k]
  show "extract_year_from_text cfg now t = 2000 + two_digits t (k + 2)" by simp
next
  assume a: "((\<forall>i. \<not> season_at t i)
        \<or> (first_at (season_at t) i \<and> \<not> in_bound cfg (2000 + two_digits t i)))
       \<and> (\<forall>k. \<not> year20_at t k)"
  then have e: "extract_year_from_text cfg now t = (case search_year20 t of Some y \<Rightarrow> py_int y | None \<Rightarrow> now)"
    using extract_year_fallthrough by blast
  have "search_year20 t = None"
  proof (cases "search_year20 t")
    case (Some y)
    from search_year20_Some[OF Some] a show ?thesis by (auto simp: first_at_def)
  qed simp
  with e show "extract_year_from_text cfg now t = now" by simp
next
  assume "in_bound cfg 2022"
  moreover have "search_season (NATACION @ str '' Open 22-23 Jornada 1'') = Some (str ''22'')"
    by code_simp
  moreover have "py_int (str ''20'' @ str ''22'') = 2022" by code_simp
  ultimately show "extract_year_from_text cfg now (NATACION @ str '' Open 22-23 Jornada 1'') = 2022"
    by (simp add: extract_year_from_text_def Let_def in_bound_def)
next
  have "search_season (str ''Trofeo 2024'') = None" by code_simp
  moreover have "search_year20 (str ''Trofeo 2024'') = Some (str ''2024'')" by code_simp
  moreover have "py_int (str ''2024'') = 2024" by code_simp
  ultimately show "extract_year_from_text cfg now (str ''Trofeo 2024'') = 2024"
    by (simp add: extract_year_from_text_def Let_def)
next
  have "search_season (str ''Trofeo de Invierno'') = None" by code_simp
  moreover have "search_year20 (str ''Trofeo de Invierno'') = None" by code_simp
  ultimately show "extract_year_from_text cfg now (str ''Trofeo de Invierno'') = now"
    by (simp add: extract_year_from_text_def Let_def)
qed

theorem season_year_inference_witness:
  "first_at (season_at (str ''Open 22-23'')) 5 \<and> in_bound cfg_example (2000 + two_digits (str ''Open 22-23'') 5)
   \<and> extract_year_from_text cfg_example 2026 (str ''Open 22-23'') = 2022
   \<and> first_at (season_at (str ''Open 15-16 de 2019'')) 5
   \<and> \<not> in_bound cfg_example (2000 + two_digits (str ''Open 15-16 de 2019'') 5)
   \<and> first_at (year20_at (str ''Open 15-16 de 2019'')) 14
   \<and> extract_year_from_text cfg_example 2026 (str ''Open 15-16 de 2019'') = 2019
   \<and> (\<forall>i. \<not> season_at (str ''Trofeo'') i) \<and> (\<forall>k. \<not> year20_at (str ''Trofeo'') k)
   \<and> extract_year_from_text cfg_example 2026 (str ''Trofeo'') = 2026
   \<and> in_bound cfg_example 2022
   \<and> extract_year_from_text cfg_example 2026 (NATACION @ str '' Open 22-23 Jornada 1'') = 2022"
proof -
  have a1: "first_at (season_at (str ''Open 22-23'')) 5"
    unfolding first_at_list by code_simp
  have a2: "two_digits (str ''Open 22-23'') 5 = 22"
    by code_simp
  have b1: "first_at (season_at (str ''Open 15-16 de 2019'')) 5"
    unfolding first_at_list by code_simp
  have b2: "two_digits (str ''Open 15-16 de 2019'') 5 = 15"
    by code_simp
  have b3: "first_at (year20_at (str ''Open 15-16 de 2019'')) 14"
    unfolding first_at_list by code_simp
  have b4: "two_digits (str ''Open 15-16 de 2019'') (14 + 2) = 19"
    by code_simp
  have c1: "\<forall>i. \<not> season_at (str ''Trofeo'') i"
  proof -
    have "search_season (str ''Trofeo'') = None" by code_simp
    then show ?thesis using search_season_None by blast
  qed
  have c2: "\<forall>k. \<not> year20_at (str ''Trofeo'') k"
  proof -
    have "search_year20 (str ''Trofeo'') = None" by code_simp
    then show ?thesis using search_year20_None by blast
  qed
  have d1: "in_bound cfg_example 2022" "\<not> in_bound cfg_example 2015"
    by (simp_all add: in_bound_def cfg_example_def)
  show ?thesis
    using a1 a2 b1 b2 b3 b4 c1 c2 d1
      season_year_inference [of "str ''Open 22-23''" 5 cfg_example 2026 0]
      season_year_inference [of "str ''Open 15-16 de 2019''" 5 cfg_example 2026 14]
      season_year_inference [of "str ''Trofeo''" 0 cfg_example 2026 0]
    by simp
qed

section \<open>Requests\<close>

lemma make_request_fst: "fst (make_request w u s) = fetch w (nreq s) u"
  by (simp add: make_request_def Let_def split: option.splits)

lemma make_request_Some:
  "fetch w (nreq s) u = Some r \<Longrightarrow>
   make_request w u s = (Some r, (emit (Requested u) s)\<lparr>nreq := nreq s + 1\<rparr>)"
  by (simp add: make_request_def Let_def)

lemma make_request_None:
  "fetch w (nreq s) u = None \<Longrightarrow>
   make_request w u s = (None, (emit (Requested u) s)\<lparr>nreq := nreq s + 1, errors := errors s + 1\<rparr>)"
  by (simp add: make_request_def Let_def emit_def)

lemma make_request_fields:
  "processed_competitions (snd (make_request w u s)) = processed_competitions s"
  "downloaded_files (snd (make_request w u s)) = downloaded_files s"
  "files (snd (make_request w u s)) = files s"
  "nreq (snd (make_request w u s)) = nreq s + 1"
  "trace (snd (make_request w u s)) = trace s @ [Requested u]"
  "competitions_already_downloaded (snd (make_request w u s)) = competitions_already_downloaded s"
  by (simp_all add: make_request_def Let_def emit_def split: option.splits)

lemma find_res_zip_link_snd:
  "snd (find_res_zip_link w u s) = snd (make_request w u s)"
  by (auto simp: find_res_zip_link_def Let_def split: option.splits prod.splits)

section \<open>Downloads\<close>

lemma download_file_success:
  assumes "u \<notin> downloaded_files s" and "p \<notin> files s"
    and "fetch w (nreq s) u = Some r" and "\<not> contains (str ''text/html'') (content_type r)"
    and "write_body w (nreq s) p = Written"
  shows "fst (download_file w u p s) = True
         \<and> files (snd (download_file w u p s)) = insert p (files s)
         \<and> downloaded_files (snd (download_file w u p s)) = insert u (downloaded_files s)"
  using assms by (simp add: download_file_def make_request_Some emit_def)

text \<open>
  Claim C8, as stated, fails: the test is for the characters \<open>text/html\<close> as they
  stand in the header, so a response that declares HTML in capitals, or declares XHTML,
  is not rejected. Its body is written and its URL is recorded.
\<close>

theorem markup_response_accepted:
  "declares_markup (str ''TEXT/HTML; charset=UTF-8'')
   \<and> fetch w_html_upper (nreq s_fresh) (str ''u'')
       = Some (Response [] [] (str ''TEXT/HTML; charset=UTF-8''))
   \<and> fst (download_file w_html_upper (str ''u'') [str ''data'', str ''a.zip''] s_fresh) = True
   \<and> files (snd (download_file w_html_upper (str ''u'') [str ''data'', str ''a.zip''] s_fresh))
       = {[str ''data'', str ''a.zip'']}
   \<and> downloaded_files
         (snd (download_file w_html_upper (str ''u'') [str ''data'', str ''a.zip''] s_fresh))
       = {str ''u''}
   \<and> declares_markup (str ''application/xhtml+xml'')
   \<and> fetch w_xhtml (nreq s_fresh) (str ''u'')
       = Some (Response [] [] (str ''application/xhtml+xml''))
   \<and> fst (download_file w_xhtml (str ''u'') [str ''data'', str ''a.zip''] s_fresh) = True
   \<and> files (snd (download_file w_xhtml (str ''u'') [str ''data'', str ''a.zip''] s_fresh))
       = {[str ''data'', str ''a.zip'']}
   \<and> downloaded_files
         (snd (download_file w_xhtml (str ''u'') [str ''data'', str ''a.zip''] s_fresh))
       = {str ''u''}"
  by code_simp

text \<open>
  Claim C8, amended. When a transfer is attempted (the URL is not in the registry and the
  target file is not on disk) and the content type that the response declares contains
  the characters \<open>text/html\<close>, in lower case, the download fails: nothing is written,
  the set of downloaded URLs and the count of downloaded files are unchanged, and the
  run logs the request and the rejection.
\<close>

theorem html_response_rejected:
  assumes "u \<notin> downloaded_files s" and "save_path \<notin> files s"
    and "fetch w (nreq s) u = Some r" and "contains (str ''text/html'') (content_type r)"
  shows "fst (download_file w u save_path s) = False
         \<and> files (snd (download_file w u save_path s)) = files s
         \<and> downloaded_files (snd (download_file w u save_path s)) = downloaded_files s
         \<and> files_downloaded (snd (download_file w u save_path s)) = files_downloaded s
         \<and> trace (snd (download_file w u save_path s)) = trace s @ [Requested u, NotZip u]"
  using assms by (simp add: download_file_def make_request_Some emit_def)

theorem html_response_rejected_witness:
  "str ''u'' \<notin> downloaded_files s_fresh \<and> [str ''data'', str ''a.zip''] \<notin> files s_fresh
   \<and> fetch w_html (nreq s_fresh) (str ''u'')
       = Some (Response [] [] (str ''text/html; charset=utf-8''))
   \<and> contains (str ''text/html'') (str ''text/html; charset=utf-8'')
   \<and> fst (download_file w_html (str ''u'') [str ''data'', str ''a.zip''] s_fresh) = False
   \<and> files (snd (download_file w_html (str ''u'') [str ''data'', str ''a.zip''] s_fresh)) = {}
   \<and> downloaded_files (snd (download_file w_html (str ''u'') [str ''data'', str ''a.zip''] s_fresh))
       = {}"
proof -
  have a: "str ''u'' \<notin> downloaded_files s_fresh"
    "[str ''data'', str ''a.zip''] \<notin> files s_fresh"
    by (simp_all add: s_fresh_def)
  have b: "fetch w_html (nreq s_fresh) (str ''u'')
      = Some (Response [] [] (str ''text/html; charset=utf-8''))"
    by (simp add: w_html_def answers_def)
  have c: "contains (str ''text/html'')
      (content_type (Response [] [] (str ''text/html; charset=utf-8'')))"
    by code_simp
  have d: "files s_fresh = {}" "downloaded_files s_fresh = {}" by (simp_all add: s_fresh_def)
  show ?thesis
    using a b c d html_response_rejected [OF a b c] by simp
qed

lemma download_file_trace:
  "\<exists>evs. trace (snd (download_file w u p s)) = trace s @ evs
         \<and> set evs \<subseteq> {AlreadyDownloaded u, FileExists u p, Requested u, NotZip u,
                        Downloaded u p, SaveError u}"
proof -
  obtain r s1 where m: "make_request w u s = (r, s1)" by (cases "make_request w u s")
  then have "s1 = snd (make_request w u s)" by simp
  then have t: "trace s1 = trace s @ [Requested u]" by (simp add: make_request_fields)
  show ?thesis
    using m t
    by (auto simp: download_file_def emit_def split: option.splits write_result.splits)
qed

lemma download_file_processed:
  "processed_competitions (snd (download_file w u p s)) = processed_competitions s"
proof -
  obtain r s1 where m: "make_request w u s = (r, s1)" by (cases "make_request w u s")
  then have "s1 = snd (make_request w u s)" by simp
  then have t: "processed_competitions s1 = processed_competitions s"
    by (simp add: make_request_fields)
  show ?thesis
    using m t
    by (auto simp: download_file_def emit_def split: option.splits write_result.splits)
qed

lemma download_file_downloaded:
  "downloaded_files (snd (download_file w u p s)) =
     (if u \<notin> downloaded_files s \<and> (p \<in> files s \<or> transfer_succeeds w u p s)
      then insert u (downloaded_files s) else downloaded_files s)"
proof -
  obtain r s1 where m: "make_request w u s = (r, s1)" by (cases "make_request w u s")
  then have "s1 = snd (make_request w u s)" "r = fst (make_request w u s)" by simp_all
  then have t: "downloaded_files s1 = downloaded_files s" "r = fetch w (nreq s) u"
    by (simp_all add: make_request_fields make_request_fst)
  show ?thesis
    using m t
    by (auto simp: download_file_def emit_def transfer_succeeds_def
             split: option.splits write_result.splits)
qed

lemma download_file_events:
  "FileExists u' p' \<in> set (trace (snd (download_file w u p s))) \<Longrightarrow>
     FileExists u' p' \<in> set (trace s) \<or> (u' = u \<and> p' = p \<and> p \<in> files s)"
  "Downloaded u' p' \<in> set (trace (snd (download_file w u p s))) \<Longrightarrow>
     Downloaded u' p' \<in> set (trace s) \<or> (u' = u \<and> p' = p \<and> transfer_succeeds w u p s)"
proof -
  obtain r s1 where m: "make_request w u s = (r, s1)" by (cases "make_request w u s")
  then have "s1 = snd (make_request w u s)" "r = fst (make_request w u s)" by simp_all
  then have t: "trace s1 = trace s @ [Requested u]" "r = fetch w (nreq s) u"
    by (simp_all add: make_request_fields make_request_fst)
  show "FileExists u' p' \<in> set (trace (snd (download_file w u p s))) \<Longrightarrow>
     FileExists u' p' \<in> set (trace s) \<or> (u' = u \<and> p' = p \<and> p \<in> files s)"
    using m t
    by (auto simp: download_file_def emit_def split: option.splits write_result.splits if_splits)
  show "Downloaded u' p' \<in> set (trace (snd (download_file w u p s))) \<Longrightarrow>
     Downloaded u' p' \<in> set (trace s) \<or> (u' = u \<and> p' = p \<and> transfer_succeeds w u p s)"
    using m t
    by (auto simp: download_file_def emit_def transfer_succeeds_def
             split: option.splits write_result.splits if_splits)
qed

lemma download_file_justified:
  assumes "justified D0 s"
  shows "justified D0 (snd (download_file w u p s))"
proof -
  obtain evs where t: "trace (snd (download_file w u p s)) = trace s @ evs"
    using download_file_trace by blast
  show ?thesis
    unfolding justified_def
  proof
    fix x assume x: "x \<in> downloaded_files (snd (download_file w u p s))"
    show "x \<in> D0 \<or> (\<exists>q. FileExists x q \<in> set (trace (snd (download_file w u p s))))
          \<or> (\<exists>q. Downloaded x q \<in> set (trace (snd (download_file w u p s))))"
    proof (cases "x \<in> downloaded_files s")
      case True
      with assms t show ?thesis by (auto simp: justified_def)
    next
      case False
      with x have xu: "x = u" and c: "p \<in> files s \<or> transfer_succeeds w u p s"
        and nd: "u \<notin> downloaded_files s"
        by (auto simp: download_file_downloaded split: if_splits)
      obtain r s1 where m: "make_request w u s = (r, s1)" by (cases "make_request w u s")
      then have "s1 = snd (make_request w u s)" "r = fst (make_request w u s)" by simp_all
      then have f: "trace s1 = trace s @ [Requested u]" "r = fetch w (nreq s) u"
        by (simp_all add: make_request_fields make_request_fst)
      have "FileExists u p \<in> set (trace (snd (download_file w u p s)))
            \<or> Downloaded u p \<in> set (trace (snd (download_file w u p s)))"
        using nd c m f
        by (auto simp: download_file_def emit_def transfer_succeeds_def
                 split: option.splits write_result.splits)
      with xu show ?thesis by blast
    qed
  qed
qed

section \<open>Year attribution\<close>

lemma hyphen_not_digit: "\<not> is_digit (ch CHR ''-'')"
  by (simp add: is_digit_def decimal_ranges_def)

lemma digit_not_hyphen: "is_digit c \<Longrightarrow> c \<noteq> ch CHR ''-''"
  using hyphen_not_digit by auto

lemma digits_20: "is_digit (ch CHR ''2'')" "is_digit (ch CHR ''0'')"
  by (simp_all add: is_digit_def decimal_ranges_def)

lemma before_first_year:
  "list_all is_digit y \<Longrightarrow> before_first (ch CHR ''-'') (y @ str ''-'' @ rest) = y"
  using digit_not_hyphen by (induction y) (auto simp: before_first_def str_simps)

lemma extract_date_year_digits:
  assumes "extract_date_from_page text = Some ds"
  shows "\<exists>y rest. ds = y @ str ''-'' @ rest \<and> length y = 4 \<and> list_all is_digit y
                  \<and> before_first (ch CHR ''-'') ds = y"
proof -
  from assms obtain d m y mm where sd: "search_date text = Some (d, m, y)"
    and ds: "ds = y @ str ''-'' @ mm @ str ''-'' @ py_zfill 2 d"
    by (auto simp: extract_date_from_page_def Let_def split: option.splits prod.splits)
  from search_date_first[OF sd] match_date_at_digits
  have "length y = 4 \<and> list_all is_digit y" by blast
  with ds before_first_year[of y] show ?thesis by blast
qed

lemma search_season_digits:
  "search_season t = Some nn \<Longrightarrow> length nn = 2 \<and> list_all is_digit nn"
  by (induction t rule: search_season.induct) (auto split: if_splits)

lemma search_year20_digits:
  "search_year20 t = Some y \<Longrightarrow> length y = 4 \<and> list_all is_digit y"
  using digits_20 by (induction t rule: search_year20.induct) (auto split: if_splits)

lemma process_competition_files:
  assumes f: "fst (find_res_zip_link w (url c) (emit (Competition (comp_id c)) s)) = Some (zip_url, date_str)"
    and "zip_url \<notin> downloaded_files s" and "save_path_of cfg c date_str \<notin> files s"
    and "fetch w (nreq s + 1) zip_url = Some r" and "\<not> contains (str ''text/html'') (content_type r)"
    and "write_body w (nreq s + 1) (save_path_of cfg c date_str) = Written"
  shows "files (process_competition w cfg c s) = insert (save_path_of cfg c date_str) (files s)"
proof -
  let ?s0 = "emit (Competition (comp_id c)) s"
  let ?p = "save_path_of cfg c date_str"
  obtain s1 where fr: "find_res_zip_link w (url c) ?s0 = (Some (zip_url, date_str), s1)"
    using f by (cases "find_res_zip_link w (url c) ?s0") simp
  then have "s1 = snd (make_request w (url c) ?s0)"
    using find_res_zip_link_snd[of w "url c" ?s0] by simp
  then have s1: "downloaded_files s1 = downloaded_files s" "files s1 = files s"
    "nreq s1 = nreq s + 1"
    by (simp_all add: make_request_fields emit_def)
  let ?s2 = "s1\<lparr>competitions_with_res := competitions_with_res s1 + 1\<rparr>"
  have d: "fst (download_file w zip_url ?p ?s2) = True
         \<and> files (snd (download_file w zip_url ?p ?s2)) = insert ?p (files ?s2)"
    using download_file_success[of zip_url ?s2 ?p w r] assms(2-6) s1 by simp
  obtain ok s3 where ds: "download_file w zip_url ?p ?s2 = (ok, s3)"
    by (cases "download_file w zip_url ?p ?s2")
  with d have "ok" "files s3 = insert ?p (files s)" using s1 by simp_all
  then show ?thesis
    using fr ds by (simp add: process_competition_def Let_def mark_processed_def)
qed

text \<open>
  Claim C5. When the scan of the detail page gave a date, the year of the target
  directory is the year component of the date, whatever the season year is, and the file
  name starts with the date; without a date both are the season year. The target path is
  the output root, the year, and \<open>dateOrYear__sanitized title.zip\<close>. A date of
  2026-01-31 with a season year of 2025 gives the directory 2026. When the transfer
  succeeds, the file that appears on disk is the one at that path.
\<close>

theorem year_attribution_precedence:
  "(y \<noteq> [] \<and> list_all is_digit y \<longrightarrow>
      competition_year c (Some (y @ str ''-'' @ rest)) = py_int y
      \<and> save_path_of cfg c (Some (y @ str ''-'' @ rest)) =
          output_base_dir cfg @
            [py_str (py_int y), (y @ str ''-'' @ rest) @ str ''__'' @ sanitize_filename (title c) @ str ''.zip''])
   \<and> competition_year c None = season_year c
   \<and> save_path_of cfg c None =
       output_base_dir cfg @
         [py_str (season_year c),
          py_str (season_year c) @ str ''__'' @ sanitize_filename (title c) @ str ''.zip'']
   \<and> (season_year c = 2025 \<longrightarrow>
        competition_year c (Some (str ''2026-01-31'')) = 2026
        \<and> save_path_of cfg c (Some (str ''2026-01-31'')) =
            output_base_dir cfg @
              [str ''2026'', str ''2026-01-31__'' @ sanitize_filename (title c) @ str ''.zip''])
   \<and> (fst (find_res_zip_link w (url c) (emit (Competition (comp_id c)) s)) = Some (zip_url, date_str)
       \<and> zip_url \<notin> downloaded_files s \<and> save_path_of cfg c date_str \<notin> files s
       \<and> fetch w (nreq s + 1) zip_url = Some r \<and> \<not> contains (str ''text/html'') (content_type r)
       \<and> write_body w (nreq s + 1) (save_path_of cfg c date_str) = Written \<longrightarrow>
        files (process_competition w cfg c s) = insert (save_path_of cfg c date_str) (files s))"
proof (intro conjI impI)
  assume a: "y \<noteq> [] \<and> list_all is_digit y"
  then have b: "before_first (ch CHR ''-'') (y @ str ''-'' @ rest) = y" using before_first_year[of y rest] by simp
  then show "competition_year c (Some (y @ str ''-'' @ rest)) = py_int y"
    by (simp add: competition_year_def str_simps)
  with b show "save_path_of cfg c (Some (y @ str ''-'' @ rest)) =
          output_base_dir cfg @
            [py_str (py_int y), (y @ str ''-'' @ rest) @ str ''__'' @ sanitize_filename (title c) @ str ''.zip'']"
    by (simp add: save_path_of_def filename_def str_simps)
next
  show "competition_year c None = season_year c" by (simp add: competition_year_def)
next
  show "save_path_of cfg c None =
       output_base_dir cfg @
         [py_str (season_year c),
          py_str (season_year c) @ str ''__'' @ sanitize_filename (title c) @ str ''.zip'']"
    by (simp add: save_path_of_def filename_def competition_year_def)
next
  have y: "competition_year c (Some (str ''2026-01-31'')) = 2026"
  proof -
    have "str ''2026-01-31'' \<noteq> []" by (simp add: str_def)
    moreover have "py_int (before_first (ch CHR ''-'') (str ''2026-01-31'')) = 2026" by code_simp
    ultimately show ?thesis by (simp add: competition_year_def)
  qed
  then show "competition_year c (Some (str ''2026-01-31'')) = 2026" .
  have "py_str 2026 = str ''2026''" by code_simp
  with y show "save_path_of cfg c (Some (str ''2026-01-31'')) =
            output_base_dir cfg @
              [str ''2026'', str ''2026-01-31__'' @ sanitize_filename (title c) @ str ''.zip'']"
    by (simp add: save_path_of_def filename_def str_simps)
next
  assume "fst (find_res_zip_link w (url c) (emit (Competition (comp_id c)) s)) = Some (zip_url, date_str)
       \<and> zip_url \<notin> downloaded_files s \<and> save_path_of cfg c date_str \<notin> files s
       \<and> fetch w (nreq s + 1) zip_url = Some r \<and> \<not> contains (str ''text/html'') (content_type r)
       \<and> write_body w (nreq s + 1) (save_path_of cfg c date_str) = Written"
  then show "files (process_competition w cfg c s) = insert (save_path_of cfg c date_str) (files s)"
    using process_competition_files by blast
qed

theorem year_attribution_precedence_witness:
  "str ''2026'' \<noteq> [] \<and> list_all is_digit (str ''2026'') \<and> season_year c_open = 2025
   \<and> competition_year c_open (Some (str ''2026-01-31'')) = 2026
   \<and> fst (find_res_zip_link w_dated (url c_open) (emit (Competition (comp_id c_open)) s_fresh))
       = Some (BASE_URL @ str ''/res/open.zip'', Some (str ''2026-01-31''))
   \<and> BASE_URL @ str ''/res/open.zip'' \<notin> downloaded_files s_fresh
   \<and> save_path_of cfg_example c_open (Some (str ''2026-01-31'')) \<notin> files s_fresh
   \<and> fetch w_dated (nreq s_fresh + 1) (BASE_URL @ str ''/res/open.zip'')
       = Some (Response [] [] (str ''application/zip''))
   \<and> \<not> contains (str ''text/html'') (content_type (Response [] [] (str ''application/zip'')))
   \<and> write_body w_dated (nreq s_fresh + 1) (save_path_of cfg_example c_open (Some (str ''2026-01-31'')))
       = Written
   \<and> files (process_competition w_dated cfg_example c_open s_fresh)
       = {[str ''data'', str ''raw'', str ''FMN'', str ''natacion'', str ''2026'', str ''2026-01-31__Open_25-26.zip'']}"
proof -
  have a: "str ''2026'' \<noteq> [] \<and> list_all is_digit (str ''2026'')"
    by code_simp
  have b: "season_year c_open = 2025" by (simp add: c_open_def)
  have c: "fst (find_res_zip_link w_dated (url c_open) (emit (Competition (comp_id c_open)) s_fresh))
       = Some (BASE_URL @ str ''/res/open.zip'', Some (str ''2026-01-31''))"
    by code_simp
  have d: "BASE_URL @ str ''/res/open.zip'' \<notin> downloaded_files s_fresh"
    "save_path_of cfg_example c_open (Some (str ''2026-01-31'')) \<notin> files s_fresh"
    by (simp_all add: s_fresh_def)
  have e: "fetch w_dated (nreq s_fresh + 1) (BASE_URL @ str ''/res/open.zip'')
       = Some (Response [] [] (str ''application/zip''))"
    by (simp add: w_dated_def answers_def)
  have f: "\<not> contains (str ''text/html'') (content_type (Response [] [] (str ''application/zip'')))"
    by code_simp
  have g: "write_body w_dated (nreq s_fresh + 1) (save_path_of cfg_example c_open (Some (str ''2026-01-31'')))
       = Written"
    by (simp add: w_dated_def answers_def)
  have h: "sanitize_filename (title c_open) = str ''Open_25-26''" by code_simp
  have i: "files s_fresh = {}" "output_base_dir cfg_example = [str ''data'', str ''raw'', str ''FMN'', str ''natacion'']"
    by (simp_all add: s_fresh_def cfg_example_def)
  note T = year_attribution_precedence [of "str ''2026''" c_open "str ''01-31''" cfg_example w_dated
      s_fresh "BASE_URL @ str ''/res/open.zip''" "Some (str ''2026-01-31'')"
      "Response [] [] (str ''application/zip'')"]
  from T b have y: "competition_year c_open (Some (str ''2026-01-31'')) = 2026" by blast
  from T b have "save_path_of cfg_example c_open (Some (str ''2026-01-31'')) =
      output_base_dir cfg_example @
        [str ''2026'', str ''2026-01-31__'' @ sanitize_filename (title c_open) @ str ''.zip'']"
    by blast
  then have p: "save_path_of cfg_example c_open (Some (str ''2026-01-31'')) =
      [str ''data'', str ''raw'', str ''FMN'', str ''natacion'', str ''2026'', str ''2026-01-31__Open_25-26.zip'']"
    by (simp add: h i str_simps)
  from T c d e f g have "files (process_competition w_dated cfg_example c_open s_fresh)
      = insert (save_path_of cfg_example c_open (Some (str ''2026-01-31''))) (files s_fresh)"
    by blast
  then have q: "files (process_competition w_dated cfg_example c_open s_fresh)
      = {[str ''data'', str ''raw'', str ''FMN'', str ''natacion'', str ''2026'', str ''2026-01-31__Open_25-26.zip'']}"
    unfolding p by (simp add: i)
  from a b y c d e f g q show ?thesis by blast
qed

section \<open>Loading the registry\<close>

lemma load_registry_soft:
  "load_registry Missing = Inr ({}, {})"
  "load_registry Unreadable = Inr ({}, {})"
  "load_registry Malformed = Inr ({}, {})"
  by (simp_all add: load_registry_def)

text \<open>
  Claim C3. Loading the registry is meant never to raise. It does not for a missing file,
  an unreadable file or text that is not JSON (\<open>load_registry_soft\<close>), but the handler
  lists only \<open>JSONDecodeError\<close> and \<open>IOError\<close>: a file that holds the JSON list \<open>[]\<close>
  makes \<open>data.get\<close> raise \<open>AttributeError\<close>, a dictionary whose \<open>downloaded_urls\<close> is
  the number 5 makes \<open>set\<close> raise \<open>TypeError\<close>, and a file that is not UTF-8 makes the
  read raise \<open>UnicodeDecodeError\<close>. All three leave the function.
\<close>

theorem load_registry_raises:
  "load_registry (Content (JArr [])) = Inl AttributeError
   \<and> load_registry (Content (JObj [(str ''downloaded_urls'', JNum 5)])) = Inl TypeError
   \<and> load_registry NotUtf8 = Inl UnicodeDecodeError"
  by (simp add: load_registry_def dict_get_def py_set_def)

section \<open>Two runs\<close>

text \<open>
  Claim C1. A run in which pages 5, 6 and 7 give no competition and skip no entry is
  meant to stop after page 7. The test of the loop reads the count of skipped entries
  of the whole run, not of the page: in the run below the registry holds competition 7,
  page 1 lists it (one entry skipped, none new) and every later page is empty. The
  counter of empty pages is reset on every page, and the run goes on to request page 8,
  the last one configured. One entry was skipped in the whole run, the one of page 1.
\<close>

theorem rerun_requests_page_8:
  "trace (run w_rerun cfg_example s_rerun) =
     [Page 1, Requested (page_url 1), Page 2, Requested (page_url 2),
      Page 3, Requested (page_url 3), Page 4, Requested (page_url 4),
      Page 5, Requested (page_url 5), Page 6, Requested (page_url 6),
      Page 7, Requested (page_url 7), Page 8, Requested (page_url 8), RegistrySaved]
   \<and> fetch w_rerun 4 (page_url 5) = Some (Response [] [] (str ''text/html''))
   \<and> fetch w_rerun 5 (page_url 6) = Some (Response [] [] (str ''text/html''))
   \<and> fetch w_rerun 6 (page_url 7) = Some (Response [] [] (str ''text/html''))
   \<and> competitions_already_downloaded (run w_rerun cfg_example s_rerun) = 1"
  by code_simp

text \<open>
  Claim C2, as stated, fails: a run over one page that gives no competition writes the
  registry once, at the end, and not once more after the page.
\<close>

theorem empty_page_not_flushed:
  "pages_scraped (run w_html cfg_one_page s_fresh) = 1
   \<and> trace (run w_html cfg_one_page s_fresh) = [Page 1, Requested (page_url 1), RegistrySaved]
   \<and> count_saves (trace (run w_html cfg_one_page s_fresh))
       \<noteq> pages_scraped (run w_html cfg_one_page s_fresh) + 1"
  by code_simp

section \<open>Invariants of the loop\<close>

lemma crawl_invariant:
  assumes "\<And>page s comps s1. I s \<Longrightarrow>
      get_competitions_from_page w cfg page (emit (Page page) s) = (comps, s1) \<Longrightarrow>
      I (s1\<lparr>pages_scraped := pages_scraped s1 + 1\<rparr>)"
    and "\<And>page s comps s1. I s \<Longrightarrow>
      get_competitions_from_page w cfg page (emit (Page page) s) = (comps, s1) \<Longrightarrow>
      comps \<noteq> [] \<Longrightarrow>
      I (process_page w cfg comps (s1\<lparr>pages_scraped := pages_scraped s1 + 1\<rparr>))"
    and "I s"
  shows "I (crawl w cfg page consecutive_empty s)"
  using assms
proof (induction w cfg page consecutive_empty s rule: crawl.induct)
  case (1 w cfg page consecutive_empty s)
  note empty = "1.prems"(1) and found = "1.prems"(2) and inv = "1.prems"(3)
  show ?case
  proof (cases "page \<le> max_pages cfg")
    case False
    with inv show ?thesis by (simp add: crawl.simps)
  next
    case True
    obtain comps s1 where
      g: "get_competitions_from_page w cfg page (emit (Page page) s) = (comps, s1)"
      by (cases "get_competitions_from_page w cfg page (emit (Page page) s)")
    define s2 where "s2 = s1\<lparr>pages_scraped := pages_scraped s1 + 1\<rparr>"
    have i2: "I s2" unfolding s2_def by (rule empty[OF inv g])
    show ?thesis
    proof (cases "comps = []")
      case nil: True
      show ?thesis
      proof (cases "0 < competitions_already_downloaded s2")
        case skipped: True
        have "I (crawl w cfg (page + 1) 0 s2)"
          by (rule "1.IH"(1)[OF True refl g[symmetric] s2_def nil skipped empty found i2])
        with True g nil skipped show ?thesis
          by (simp add: crawl.simps[of w cfg page] s2_def)
      next
        case none: False
        show ?thesis
        proof (cases "3 \<le> consecutive_empty + 1")
          case stop: True
          with True g nil none i2 show ?thesis
            by (simp add: crawl.simps[of w cfg page] s2_def)
        next
          case go: False
          have "I (crawl w cfg (page + 1) (consecutive_empty + 1) s2)"
            by (rule "1.IH"(2)[OF True refl g[symmetric] s2_def nil none go empty found i2])
          with True g nil none go show ?thesis
            by (simp add: crawl.simps[of w cfg page] s2_def)
        qed
      qed
    next
      case some: False
      have ip: "I (process_page w cfg comps s2)"
        unfolding s2_def by (rule found[OF inv g some])
      have "I (crawl w cfg (page + 1) 0 (process_page w cfg comps s2))"
        by (rule "1.IH"(3)[OF True refl g[symmetric] s2_def some empty found ip])
      with True g some show ?thesis
        by (simp add: crawl.simps[of w cfg page] s2_def)
    qed
  qed
qed

lemma foldl_invariant:
  "I s \<Longrightarrow> (\<And>c s. c \<in> set cs \<Longrightarrow> I s \<Longrightarrow> I (f s c)) \<Longrightarrow> I (foldl f s cs)"
  by (induction cs arbitrary: s) auto

subsection \<open>What each step leaves alone\<close>

lemma scan_link_fields:
  "trace (snd (scan_link w cfg a acc)) = trace (snd acc)"
  "downloaded_files (snd (scan_link w cfg a acc)) = downloaded_files (snd acc)"
  "processed_competitions (snd (scan_link w cfg a acc)) = processed_competitions (snd acc)"
  "files (snd (scan_link w cfg a acc)) = files (snd acc)"
  by (auto simp: scan_link_def Let_def split: prod.splits option.splits)

lemma scan_links_fields:
  "trace (snd (foldl (\<lambda>acc link. scan_link w cfg link acc) acc as)) = trace (snd acc)"
  "downloaded_files (snd (foldl (\<lambda>acc link. scan_link w cfg link acc) acc as))
     = downloaded_files (snd acc)"
  "processed_competitions (snd (foldl (\<lambda>acc link. scan_link w cfg link acc) acc as))
     = processed_competitions (snd acc)"
  "files (snd (foldl (\<lambda>acc link. scan_link w cfg link acc) acc as)) = files (snd acc)"
  by (induction as arbitrary: acc) (simp_all add: scan_link_fields)

lemma scan_link_new:
  assumes "\<forall>c \<in> set (fst acc). comp_id c \<notin> processed_competitions (snd acc)"
  shows "\<forall>c \<in> set (fst (scan_link w cfg a acc)). comp_id c \<notin> processed_competitions (snd acc)"
  using assms by (auto simp: scan_link_def Let_def split: prod.splits option.splits)

lemma scan_links_new:
  "\<forall>c \<in> set (fst acc). comp_id c \<notin> processed_competitions (snd acc) \<Longrightarrow>
   \<forall>c \<in> set (fst (foldl (\<lambda>acc link. scan_link w cfg link acc) acc as)).
      comp_id c \<notin> processed_competitions (snd acc)"
proof (induction as arbitrary: acc)
  case Nil
  then show ?case by simp
next
  case (Cons a as)
  have "\<forall>c \<in> set (fst (scan_link w cfg a acc)).
          comp_id c \<notin> processed_competitions (snd (scan_link w cfg a acc))"
    using scan_link_new[OF Cons.prems] by (simp add: scan_link_fields)
  from Cons.IH[OF this] show ?case by (simp add: scan_link_fields)
qed

lemma get_competitions_fields:
  "trace (snd (get_competitions_from_page w cfg n s)) = trace s @ [Requested (page_url n)]"
  "downloaded_files (snd (get_competitions_from_page w cfg n s)) = downloaded_files s"
  "processed_competitions (snd (get_competitions_from_page w cfg n s)) = processed_competitions s"
  "files (snd (get_competitions_from_page w cfg n s)) = files s"
proof -
  obtain r s1 where m: "make_request w (page_url n) s = (r, s1)"
    by (cases "make_request w (page_url n) s")
  then have "s1 = snd (make_request w (page_url n) s)" by simp
  then have f: "trace s1 = trace s @ [Requested (page_url n)]"
    "downloaded_files s1 = downloaded_files s"
    "processed_competitions s1 = processed_competitions s" "files s1 = files s"
    by (simp_all add: make_request_fields)
  show "trace (snd (get_competitions_from_page w cfg n s)) = trace s @ [Requested (page_url n)]"
    "downloaded_files (snd (get_competitions_from_page w cfg n s)) = downloaded_files s"
    "processed_competitions (snd (get_competitions_from_page w cfg n s)) = processed_competitions s"
    "files (snd (get_competitions_from_page w cfg n s)) = files s"
    using m f by (cases r; simp add: get_competitions_from_page_def scan_links_fields)+
qed

lemma get_competitions_new:
  "\<forall>c \<in> set (fst (get_competitions_from_page w cfg n s)). comp_id c \<notin> processed_competitions s"
proof -
  obtain r s1 where m: "make_request w (page_url n) s = (r, s1)"
    by (cases "make_request w (page_url n) s")
  then have "s1 = snd (make_request w (page_url n) s)" by simp
  then have p: "processed_competitions s1 = processed_competitions s"
    by (simp add: make_request_fields)
  show ?thesis
  proof (cases r)
    case None
    with m show ?thesis by (simp add: get_competitions_from_page_def)
  next
    case (Some resp)
    have "\<forall>c \<in> set (fst (foldl (\<lambda>acc link. scan_link w cfg link acc) ([], s1) (anchors resp))).
            comp_id c \<notin> processed_competitions (snd ([]::competition list, s1))"
      by (rule scan_links_new) simp
    with m Some p show ?thesis by (simp add: get_competitions_from_page_def)
  qed
qed

lemma process_competition_trace:
  "\<exists>evs. trace (process_competition w cfg c s) = trace s @ Competition (comp_id c) # evs
         \<and> (\<forall>e \<in> set evs. transfer_event e)"
proof -
  let ?s0 = "emit (Competition (comp_id c)) s"
  obtain res s1 where f: "find_res_zip_link w (url c) ?s0 = (res, s1)"
    by (cases "find_res_zip_link w (url c) ?s0")
  then have "s1 = snd (make_request w (url c) ?s0)"
    using find_res_zip_link_snd[of w "url c" ?s0] by simp
  then have t1: "trace s1 = trace s @ [Competition (comp_id c), Requested (url c)]"
    by (simp add: make_request_fields emit_def)
  show ?thesis
  proof (cases res)
    case None
    with f t1 show ?thesis
      by (simp add: process_competition_def mark_processed_def transfer_event_def)
  next
    case (Some zd)
    obtain zip_url date_str where zd: "zd = (zip_url, date_str)" by (cases zd)
    let ?s2 = "s1\<lparr>competitions_with_res := competitions_with_res s1 + 1\<rparr>"
    let ?p = "save_path_of cfg c date_str"
    obtain ok s3 where d: "download_file w zip_url ?p ?s2 = (ok, s3)"
      by (cases "download_file w zip_url ?p ?s2")
    obtain evs where "trace (snd (download_file w zip_url ?p ?s2)) = trace ?s2 @ evs"
      and e: "set evs \<subseteq> {AlreadyDownloaded zip_url, FileExists zip_url ?p, Requested zip_url,
                        NotZip zip_url, Downloaded zip_url ?p, SaveError zip_url}"
      using download_file_trace by blast
    with d t1 have t3: "trace s3 = trace s @ Competition (comp_id c) # (Requested (url c) # evs)"
      by simp
    have "\<forall>e \<in> set (Requested (url c) # evs). transfer_event e"
      using e by (auto simp: transfer_event_def)
    moreover have "trace (process_competition w cfg c s) = trace s3"
      using f Some zd d by (cases ok) (simp_all add: process_competition_def mark_processed_def)
    ultimately show ?thesis using t3 by metis
  qed
qed

lemma process_competition_processed:
  "processed_competitions (process_competition w cfg c s)
     = insert (comp_id c) (processed_competitions s)"
proof -
  let ?s0 = "emit (Competition (comp_id c)) s"
  obtain res s1 where f: "find_res_zip_link w (url c) ?s0 = (res, s1)"
    by (cases "find_res_zip_link w (url c) ?s0")
  then have "s1 = snd (make_request w (url c) ?s0)"
    using find_res_zip_link_snd[of w "url c" ?s0] by simp
  then have p1: "processed_competitions s1 = processed_competitions s"
    by (simp add: make_request_fields emit_def)
  show ?thesis
  proof (cases res)
    case None
    with f p1 show ?thesis by (simp add: process_competition_def mark_processed_def)
  next
    case (Some zd)
    obtain zip_url date_str where zd: "zd = (zip_url, date_str)" by (cases zd)
    let ?s2 = "s1\<lparr>competitions_with_res := competitions_with_res s1 + 1\<rparr>"
    let ?p = "save_path_of cfg c date_str"
    obtain ok s3 where d: "download_file w zip_url ?p ?s2 = (ok, s3)"
      by (cases "download_file w zip_url ?p ?s2")
    then have "processed_competitions s3 = processed_competitions ?s2"
      using download_file_processed[of w zip_url ?p ?s2] by simp
    with p1 f Some zd d show ?thesis
      by (cases ok) (simp_all add: process_competition_def mark_processed_def)
  qed
qed

lemma justified_frame:
  "justified D0 s \<Longrightarrow> downloaded_files s' = downloaded_files s \<Longrightarrow>
   set (trace s) \<subseteq> set (trace s') \<Longrightarrow> justified D0 s'"
  unfolding justified_def by blast

lemma process_competition_justified:
  assumes "justified D0 s"
  shows "justified D0 (process_competition w cfg c s)"
proof -
  let ?s0 = "emit (Competition (comp_id c)) s"
  obtain res s1 where f: "find_res_zip_link w (url c) ?s0 = (res, s1)"
    by (cases "find_res_zip_link w (url c) ?s0")
  then have "s1 = snd (make_request w (url c) ?s0)"
    using find_res_zip_link_snd[of w "url c" ?s0] by simp
  then have "downloaded_files s1 = downloaded_files s" "set (trace s) \<subseteq> set (trace s1)"
    by (auto simp: make_request_fields emit_def)
  with assms have j1: "justified D0 s1" by (rule justified_frame)
  show ?thesis
  proof (cases res)
    case None
    have "justified D0 (mark_processed (comp_id c) s1)"
      by (rule justified_frame[OF j1]) (simp_all add: mark_processed_def)
    with f None show ?thesis by (simp add: process_competition_def)
  next
    case (Some zd)
    obtain zip_url date_str where zd: "zd = (zip_url, date_str)" by (cases zd)
    let ?s2 = "s1\<lparr>competitions_with_res := competitions_with_res s1 + 1\<rparr>"
    let ?p = "save_path_of cfg c date_str"
    have j2: "justified D0 ?s2" by (rule justified_frame[OF j1]) simp_all
    obtain ok s3 where d: "download_file w zip_url ?p ?s2 = (ok, s3)"
      by (cases "download_file w zip_url ?p ?s2")
    then have "justified D0 s3" using download_file_justified[OF j2, of w zip_url ?p] by simp
    then have "justified D0 (mark_processed (comp_id c) s3)"
      by (rule justified_frame) (simp_all add: mark_processed_def)
    with f Some zd d show ?thesis
      by (cases ok) (simp_all add: process_competition_def)
  qed
qed

lemma process_all_trace:
  "\<exists>evs. trace (foldl (\<lambda>s c. process_competition w cfg c s) s cs) = trace s @ evs
         \<and> (\<forall>e \<in> set evs. transfer_event e \<or> (\<exists>c \<in> set cs. e = Competition (comp_id c)))"
proof (induction cs arbitrary: s)
  case Nil
  then show ?case by simp
next
  case (Cons c cs)
  obtain e1 where e1: "trace (process_competition w cfg c s) = trace s @ Competition (comp_id c) # e1"
    "\<forall>e \<in> set e1. transfer_event e"
    using process_competition_trace by blast
  obtain e2 where e2: "trace (foldl (\<lambda>s c. process_competition w cfg c s)
                                (process_competition w cfg c s) cs)
                       = trace (process_competition w cfg c s) @ e2"
    "\<forall>e \<in> set e2. transfer_event e \<or> (\<exists>c \<in> set cs. e = Competition (comp_id c))"
    using Cons.IH by blast
  have "trace (foldl (\<lambda>s c. process_competition w cfg c s) s (c # cs))
          = trace s @ (Competition (comp_id c) # e1 @ e2)"
    using e1(1) e2(1) by simp
  moreover have "\<forall>e \<in> set (Competition (comp_id c) # e1 @ e2).
       transfer_event e \<or> (\<exists>c' \<in> set (c # cs). e = Competition (comp_id c'))"
    using e1(2) e2(2) by auto
  ultimately show ?case by blast
qed

lemma process_all_processed:
  "processed_competitions s \<subseteq>
     processed_competitions (foldl (\<lambda>s c. process_competition w cfg c s) s cs)"
proof -
  have "processed_competitions s \<subseteq> processed_competitions s" by simp
  then show ?thesis
    by (rule foldl_invariant[where I = "\<lambda>t. processed_competitions s \<subseteq> processed_competitions t"])
       (auto simp: process_competition_processed)
qed

lemma process_all_justified:
  "justified D0 s \<Longrightarrow> justified D0 (foldl (\<lambda>s c. process_competition w cfg c s) s cs)"
  by (rule foldl_invariant) (simp_all add: process_competition_justified)

lemma save_registry_fields:
  "\<exists>f. trace (save_registry w s) = trace s @ [f] \<and> registry_write_event f"
  "processed_competitions (save_registry w s) = processed_competitions s"
  "downloaded_files (save_registry w s) = downloaded_files s"
  by (simp_all add: save_registry_def emit_def registry_write_event_def)

lemma process_page_trace:
  "\<exists>evs f. trace (process_page w cfg cs s) = trace s @ Found (length cs) # evs @ [f]
         \<and> registry_write_event f
         \<and> (\<forall>e \<in> set evs. transfer_event e \<or> (\<exists>c \<in> set cs. e = Competition (comp_id c)))"
proof -
  let ?s0 = "(emit (Found (length cs)) s)\<lparr>competitions_found := competitions_found s + length cs\<rparr>"
  let ?s1 = "foldl (\<lambda>s c. process_competition w cfg c s) ?s0 cs"
  obtain evs where t: "trace ?s1 = trace ?s0 @ evs"
    and e: "\<forall>e \<in> set evs. transfer_event e \<or> (\<exists>c \<in> set cs. e = Competition (comp_id c))"
    using process_all_trace by blast
  obtain f where f: "trace (save_registry w ?s1) = trace ?s1 @ [f]" "registry_write_event f"
    using save_registry_fields(1) by blast
  from t f(1) have "trace (process_page w cfg cs s) = trace s @ Found (length cs) # evs @ [f]"
    by (simp add: process_page_def emit_def)
  with e f(2) show ?thesis by blast
qed

lemma process_page_processed:
  "processed_competitions s \<subseteq> processed_competitions (process_page w cfg cs s)"
proof -
  let ?s0 = "(emit (Found (length cs)) s)\<lparr>competitions_found := competitions_found s + length cs\<rparr>"
  have "processed_competitions ?s0 \<subseteq>
          processed_competitions (foldl (\<lambda>s c. process_competition w cfg c s) ?s0 cs)"
    by (rule process_all_processed)
  then show ?thesis by (simp add: process_page_def save_registry_fields emit_def)
qed

lemma process_page_justified:
  assumes "justified D0 s"
  shows "justified D0 (process_page w cfg cs s)"
proof -
  let ?s0 = "(emit (Found (length cs)) s)\<lparr>competitions_found := competitions_found s + length cs\<rparr>"
  have "justified D0 ?s0" by (rule justified_frame[OF assms]) (auto simp: emit_def)
  then have "justified D0 (foldl (\<lambda>s c. process_competition w cfg c s) ?s0 cs)"
    by (rule process_all_justified)
  then have "justified D0 (save_registry w (foldl (\<lambda>s c. process_competition w cfg c s) ?s0 cs))"
    by (rule justified_frame) (auto simp: save_registry_def emit_def)
  then show ?thesis by (simp add: process_page_def)
qed

section \<open>The set of downloaded URLs\<close>

lemma page_step_justified:
  assumes "justified D0 s"
    and "get_competitions_from_page w cfg page (emit (Page page) s) = (comps, s1)"
  shows "justified D0 (s1\<lparr>pages_scraped := pages_scraped s1 + 1\<rparr>)"
proof -
  from assms(2) have "s1 = snd (get_competitions_from_page w cfg page (emit (Page page) s))"
    by simp
  then have "downloaded_files s1 = downloaded_files s" "set (trace s) \<subseteq> set (trace s1)"
    by (auto simp: get_competitions_fields emit_def)
  then show ?thesis
    using justified_frame[OF assms(1), of "s1\<lparr>pages_scraped := pages_scraped s1 + 1\<rparr>"]
    by simp
qed

lemma crawl_justified:
  assumes "justified D0 s"
  shows "justified D0 (crawl w cfg page consecutive_empty s)"
proof (rule crawl_invariant[where I = "justified D0"])
  show "justified D0 s" by (rule assms)
next
  fix page s comps s1
  assume a: "justified D0 s"
    "get_competitions_from_page w cfg page (emit (Page page) s) = (comps, s1)"
  then show "justified D0 (s1\<lparr>pages_scraped := pages_scraped s1 + 1\<rparr>)"
    by (rule page_step_justified)
  then show "justified D0 (process_page w cfg comps (s1\<lparr>pages_scraped := pages_scraped s1 + 1\<rparr>))"
    by (rule process_page_justified)
qed

lemma run_justified:
  assumes "justified D0 s"
  shows "justified D0 (run w cfg s)"
proof -
  have "justified D0 (crawl w cfg 1 0 s)" by (rule crawl_justified[OF assms])
  then show ?thesis
    unfolding run_def by (rule justified_frame) (auto simp: save_registry_def emit_def)
qed

lemma get_competitions_justified:
  assumes "justified D0 s"
  shows "justified D0 (snd (get_competitions_from_page w cfg n s))"
  by (rule justified_frame[OF assms]) (auto simp: get_competitions_fields)

text \<open>
  Claim C4. After \<open>_download_file\<close> the URL is in the set of downloaded URLs exactly when
  it was there before, or the target file was found on disk, or the transfer succeeded:
  it is not added when the request fails, when the response declares \<open>text/html\<close>, or
  when writing the body fails. The events that record a file found on disk and a body
  written are logged only in those two cases. So the invariant \<open>justified\<close> (every
  downloaded URL came with the loaded registry \<open>D0\<close>, or the run found its file on disk,
  or the run wrote its body) is kept by every step of a run and by the run as a whole.
\<close>

theorem downloaded_urls_invariant:
  "downloaded_files (snd (download_file w u p s)) =
     (if u \<notin> downloaded_files s \<and> (p \<in> files s \<or> transfer_succeeds w u p s)
      then insert u (downloaded_files s) else downloaded_files s)
   \<and> (FileExists u' p' \<in> set (trace (snd (download_file w u p s))) \<longrightarrow>
        FileExists u' p' \<in> set (trace s) \<or> (u' = u \<and> p' = p \<and> p \<in> files s))
   \<and> (Downloaded u' p' \<in> set (trace (snd (download_file w u p s))) \<longrightarrow>
        Downloaded u' p' \<in> set (trace s) \<or> (u' = u \<and> p' = p \<and> transfer_succeeds w u p s))
   \<and> (justified D0 s \<longrightarrow>
        justified D0 (snd (download_file w u p s))
        \<and> justified D0 (process_competition w cfg c s)
        \<and> justified D0 (snd (get_competitions_from_page w cfg n s))
        \<and> justified D0 (run w cfg s))"
  using download_file_downloaded[of w u p s] download_file_events[of u' p' w u p s]
    download_file_justified[of D0 s w u p] process_competition_justified[of D0 s w cfg c]
    get_competitions_justified[of D0 s w cfg n] run_justified[of D0 s w cfg]
  by blast

theorem downloaded_urls_invariant_witness:
  "justified {} s_fresh
   \<and> justified {} (run w_calendar cfg_one_page s_fresh)
   \<and> downloaded_files (run w_calendar cfg_one_page s_fresh) = {BASE_URL @ str ''/res/open.zip''}
   \<and> Downloaded (str ''u'') [str ''f'']
        \<in> set (trace (snd (download_file w_dated (str ''u'') [str ''f''] (s_fresh\<lparr>nreq := 1\<rparr>))))
   \<and> transfer_succeeds w_dated (str ''u'') [str ''f''] (s_fresh\<lparr>nreq := 1\<rparr>)
   \<and> FileExists (str ''u'') [str ''f'']
        \<in> set (trace (snd (download_file w_dated (str ''u'') [str ''f''] (s_fresh\<lparr>files := {[str ''f'']}\<rparr>))))
   \<and> [str ''f''] \<in> files (s_fresh\<lparr>files := {[str ''f'']}\<rparr>)"
proof -
  have j: "justified {} s_fresh" by (simp add: justified_def s_fresh_def)
  have d: "downloaded_files (run w_calendar cfg_one_page s_fresh) = {BASE_URL @ str ''/res/open.zip''}"
    by code_simp
  have e: "Downloaded (str ''u'') [str ''f'']
        \<in> set (trace (snd (download_file w_dated (str ''u'') [str ''f''] (s_fresh\<lparr>nreq := 1\<rparr>))))"
    by code_simp
  have e0: "Downloaded (str ''u'') [str ''f''] \<notin> set (trace (s_fresh\<lparr>nreq := 1\<rparr>))"
    by (simp add: s_fresh_def)
  have f: "FileExists (str ''u'') [str ''f'']
        \<in> set (trace (snd (download_file w_dated (str ''u'') [str ''f''] (s_fresh\<lparr>files := {[str ''f'']}\<rparr>))))"
    by code_simp
  have f0: "FileExists (str ''u'') [str ''f''] \<notin> set (trace (s_fresh\<lparr>files := {[str ''f'']}\<rparr>))"
    by (simp add: s_fresh_def)
  from j downloaded_urls_invariant [where ?D0.0 = "{}" and s = s_fresh and w = w_calendar
      and cfg = cfg_one_page]
  have r: "justified {} (run w_calendar cfg_one_page s_fresh)" by blast
  from e e0 downloaded_urls_invariant [where u' = "str ''u''" and p' = "[str ''f'']" and w = w_dated
      and u = "str ''u''" and p = "[str ''f'']" and s = "s_fresh\<lparr>nreq := 1\<rparr>"]
  have t: "transfer_succeeds w_dated (str ''u'') [str ''f''] (s_fresh\<lparr>nreq := 1\<rparr>)" by blast
  from f f0 downloaded_urls_invariant [where u' = "str ''u''" and p' = "[str ''f'']" and w = w_dated
      and u = "str ''u''" and p = "[str ''f'']" and s = "s_fresh\<lparr>files := {[str ''f'']}\<rparr>"]
  have x: "[str ''f''] \<in> files (s_fresh\<lparr>files := {[str ''f'']}\<rparr>)" by blast
  from j r d e t f x show ?thesis by blast
qed

section \<open>Competitions already processed\<close>

lemma not_revisited_frame:
  assumes "not_revisited P0 s" and "processed_competitions s \<subseteq> processed_competitions s'"
    and "trace s' = trace s @ evs"
    and "\<forall>e \<in> set evs. \<forall>cid \<in> P0. e \<noteq> Competition cid"
  shows "not_revisited P0 s'"
  using assms unfolding not_revisited_def by auto

lemma page_step_not_revisited:
  assumes "not_revisited P0 s"
    and "get_competitions_from_page w cfg page (emit (Page page) s) = (comps, s1)"
  shows "not_revisited P0 (s1\<lparr>pages_scraped := pages_scraped s1 + 1\<rparr>)"
proof -
  from assms(2) have "s1 = snd (get_competitions_from_page w cfg page (emit (Page page) s))"
    by simp
  then have "processed_competitions s1 = processed_competitions s"
    "trace s1 = trace s @ [Page page, Requested (page_url page)]"
    by (simp_all add: get_competitions_fields emit_def)
  then show ?thesis
    using not_revisited_frame[OF assms(1), of "s1\<lparr>pages_scraped := pages_scraped s1 + 1\<rparr>"
        "[Page page, Requested (page_url page)]"]
    by simp
qed

lemma found_step_not_revisited:
  assumes "not_revisited P0 s"
    and g: "get_competitions_from_page w cfg page (emit (Page page) s) = (comps, s1)"
  shows "not_revisited P0 (process_page w cfg comps (s1\<lparr>pages_scraped := pages_scraped s1 + 1\<rparr>))"
proof -
  let ?s2 = "s1\<lparr>pages_scraped := pages_scraped s1 + 1\<rparr>"
  have n2: "not_revisited P0 ?s2" using assms by (rule page_step_not_revisited)
  from g have "comps = fst (get_competitions_from_page w cfg page (emit (Page page) s))" by simp
  then have "\<forall>c \<in> set comps. comp_id c \<notin> processed_competitions (emit (Page page) s)"
    using get_competitions_new by blast
  moreover have "P0 \<subseteq> processed_competitions (emit (Page page) s)"
    using assms(1) by (simp add: not_revisited_def emit_def)
  ultimately have new: "\<forall>c \<in> set comps. comp_id c \<notin> P0" by blast
  obtain evs f where t: "trace (process_page w cfg comps ?s2)
        = trace ?s2 @ (Found (length comps) # evs @ [f])"
    and f: "registry_write_event f"
    and e: "\<forall>e \<in> set evs. transfer_event e \<or> (\<exists>c \<in> set comps. e = Competition (comp_id c))"
    using process_page_trace by blast
  have "\<forall>e \<in> set (Found (length comps) # evs @ [f]). \<forall>cid \<in> P0. e \<noteq> Competition cid"
    using e f new by (auto simp: transfer_event_def registry_write_event_def)
  with not_revisited_frame[OF n2 process_page_processed t] show ?thesis by blast
qed

lemma crawl_not_revisited:
  assumes "not_revisited P0 s"
  shows "not_revisited P0 (crawl w cfg page consecutive_empty s)"
proof (rule crawl_invariant[where I = "not_revisited P0"])
  show "not_revisited P0 s" by (rule assms)
next
  fix page s comps s1
  assume a: "not_revisited P0 s"
    "get_competitions_from_page w cfg page (emit (Page page) s) = (comps, s1)"
  then show "not_revisited P0 (s1\<lparr>pages_scraped := pages_scraped s1 + 1\<rparr>)"
    by (rule page_step_not_revisited)
  from a show "not_revisited P0 (process_page w cfg comps (s1\<lparr>pages_scraped := pages_scraped s1 + 1\<rparr>))"
    by (rule found_step_not_revisited)
qed

lemma run_not_revisited:
  assumes "not_revisited P0 s"
  shows "not_revisited P0 (run w cfg s)"
proof -
  have c: "not_revisited P0 (crawl w cfg 1 0 s)" by (rule crawl_not_revisited[OF assms])
  obtain f where f: "trace (save_registry w (crawl w cfg 1 0 s)) = trace (crawl w cfg 1 0 s) @ [f]"
    "registry_write_event f"
    using save_registry_fields(1) by blast
  show ?thesis
    unfolding run_def
    by (rule not_revisited_frame[OF c _ f(1)])
       (use f(2) in \<open>auto simp: save_registry_fields registry_write_event_def\<close>)
qed

text \<open>
  Claim C7. Page extraction returns no competition whose identifier is in the processed
  set. If the identifiers of \<open>P0\<close> are marked processed when a run starts, they stay
  marked and no competition with one of them enters \<open>_process_competition\<close> during the
  run; that function is the only one that requests a detail page, scans it for an
  archive and downloads. In particular an identifier that is marked processed, and for
  which the trace has no such event so far, gets none in the whole run.
\<close>

theorem processed_never_revisited:
  "(\<forall>c \<in> set (fst (get_competitions_from_page w cfg n s)).
      comp_id c \<notin> processed_competitions s)
   \<and> (not_revisited P0 s \<longrightarrow> not_revisited P0 (run w cfg s))
   \<and> (cid \<in> processed_competitions s \<and> Competition cid \<notin> set (trace s)
        \<longrightarrow> Competition cid \<notin> set (trace (run w cfg s)))"
proof (intro conjI impI)
  show "\<forall>c \<in> set (fst (get_competitions_from_page w cfg n s)).
      comp_id c \<notin> processed_competitions s"
    by (rule get_competitions_new)
next
  assume "not_revisited P0 s"
  then show "not_revisited P0 (run w cfg s)" by (rule run_not_revisited)
next
  assume "cid \<in> processed_competitions s \<and> Competition cid \<notin> set (trace s)"
  then have "not_revisited {cid} s" by (simp add: not_revisited_def)
  then have "not_revisited {cid} (run w cfg s)" by (rule run_not_revisited)
  then show "Competition cid \<notin> set (trace (run w cfg s))" by (simp add: not_revisited_def)
qed

theorem processed_never_revisited_witness:
  "not_revisited {str ''7''} s_rerun
   \<and> not_revisited {str ''7''} (run w_rerun cfg_example s_rerun)
   \<and> str ''7'' \<in> processed_competitions s_rerun
   \<and> Competition (str ''7'') \<notin> set (trace s_rerun)
   \<and> Competition (str ''7'') \<notin> set (trace (run w_rerun cfg_example s_rerun))
   \<and> map comp_id (fst (get_competitions_from_page w_rerun cfg_example 1 s_fresh)) = [str ''7'']
   \<and> str ''7'' \<notin> processed_competitions s_fresh
   \<and> fst (get_competitions_from_page w_rerun cfg_example 1 s_rerun) = []"
proof -
  have a: "not_revisited {str ''7''} s_rerun"
    by (simp add: not_revisited_def s_rerun_def s_fresh_def)
  have b: "str ''7'' \<in> processed_competitions s_rerun" "Competition (str ''7'') \<notin> set (trace s_rerun)"
    by (simp_all add: s_rerun_def s_fresh_def)
  have c: "map comp_id (fst (get_competitions_from_page w_rerun cfg_example 1 s_fresh)) = [str ''7'']"
    by code_simp
  have d: "fst (get_competitions_from_page w_rerun cfg_example 1 s_rerun) = []"
    by code_simp
  note T = processed_never_revisited [where ?P0.0 = "{str ''7''}" and s = s_rerun and w = w_rerun
      and cfg = cfg_example and cid = "str ''7''"]
  from T a have e: "not_revisited {str ''7''} (run w_rerun cfg_example s_rerun)" by blast
  from T b have f: "Competition (str ''7'') \<notin> set (trace (run w_rerun cfg_example s_rerun))" by blast
  have g: "str ''7'' \<notin> processed_competitions s_fresh" by (simp add: s_fresh_def)
  from a e b f c g d show ?thesis by blast
qed

section \<open>Writes of the registry\<close>

lemma count_saves_append: "count_saves (xs @ ys) = count_saves xs + count_saves ys"
  by (simp add: count_saves_def)

lemma count_found_append: "count_found (xs @ ys) = count_found xs + count_found ys"
  by (simp add: count_found_def)

lemma count_quiet:
  assumes "\<forall>e \<in> set evs. transfer_event e \<or> (\<exists>c \<in> set cs. e = Competition (comp_id c))"
  shows "count_saves evs = 0 \<and> count_found evs = 0"
proof -
  have "\<forall>e \<in> set evs. \<not> registry_write_event e \<and> (case e of Found n \<Rightarrow> False | _ \<Rightarrow> True)"
    using assms by (auto simp: transfer_event_def registry_write_event_def split: event.splits)
  then show ?thesis
    by (auto simp: count_saves_def count_found_def filter_empty_conv split: event.splits)
qed

lemma process_page_balance:
  "count_saves (trace (process_page w cfg cs s)) = count_saves (trace s) + 1"
  "count_found (trace (process_page w cfg cs s)) = count_found (trace s) + 1"
proof -
  obtain evs f where t: "trace (process_page w cfg cs s) = trace s @ Found (length cs) # evs @ [f]"
    and f: "registry_write_event f"
    and e: "\<forall>e \<in> set evs. transfer_event e \<or> (\<exists>c \<in> set cs. e = Competition (comp_id c))"
    using process_page_trace by blast
  from count_quiet[OF e] have q: "count_saves evs = 0" "count_found evs = 0" by simp_all
  have "count_saves (Found (length cs) # evs @ [f]) = count_saves evs + 1"
    "count_found (Found (length cs) # evs @ [f]) = count_found evs + 1"
    using f by (auto simp: count_saves_def count_found_def registry_write_event_def)
  with t q show "count_saves (trace (process_page w cfg cs s)) = count_saves (trace s) + 1"
    "count_found (trace (process_page w cfg cs s)) = count_found (trace s) + 1"
    by (simp_all add: count_saves_append count_found_append)
qed

lemma get_competitions_counts:
  "count_saves (trace (snd (get_competitions_from_page w cfg n s))) = count_saves (trace s)"
  "count_found (trace (snd (get_competitions_from_page w cfg n s))) = count_found (trace s)"
  by (simp_all add: get_competitions_fields count_saves_def count_found_def
        registry_write_event_def)

lemma crawl_balance:
  assumes "count_saves (trace s) + F = S + count_found (trace s)"
  shows "count_saves (trace (crawl w cfg page consecutive_empty s)) + F
         = S + count_found (trace (crawl w cfg page consecutive_empty s))"
proof (rule crawl_invariant[where I = "\<lambda>t. count_saves (trace t) + F = S + count_found (trace t)"])
  show "count_saves (trace s) + F = S + count_found (trace s)" by (rule assms)
next
  fix page s comps s1
  assume a: "count_saves (trace s) + F = S + count_found (trace s)"
    and g: "get_competitions_from_page w cfg page (emit (Page page) s) = (comps, s1)"
  from g have "s1 = snd (get_competitions_from_page w cfg page (emit (Page page) s))" by simp
  then have "count_saves (trace s1) = count_saves (trace s)"
    "count_found (trace s1) = count_found (trace s)"
    by (simp_all add: get_competitions_counts)
       (simp_all add: emit_def count_saves_def count_found_def registry_write_event_def)
  with a have b: "count_saves (trace s1) + F = S + count_found (trace s1)" by simp
  then show "count_saves (trace (s1\<lparr>pages_scraped := pages_scraped s1 + 1\<rparr>)) + F
      = S + count_found (trace (s1\<lparr>pages_scraped := pages_scraped s1 + 1\<rparr>))"
    by simp
  from b show "count_saves (trace (process_page w cfg comps (s1\<lparr>pages_scraped := pages_scraped s1 + 1\<rparr>))) + F
      = S + count_found (trace (process_page w cfg comps (s1\<lparr>pages_scraped := pages_scraped s1 + 1\<rparr>)))"
    by (simp add: process_page_balance)
qed

lemma run_trace:
  "\<exists>f. trace (run w cfg s) = trace (crawl w cfg 1 0 s) @ [f] \<and> registry_write_event f"
  unfolding run_def by (rule save_registry_fields(1))

lemma run_balance:
  "count_saves (trace (run w cfg s)) + count_found (trace s)
     = count_saves (trace s) + count_found (trace (run w cfg s)) + 1"
proof -
  have c: "count_saves (trace (crawl w cfg 1 0 s)) + count_found (trace s)
        = count_saves (trace s) + count_found (trace (crawl w cfg 1 0 s))"
    by (rule crawl_balance) simp
  obtain f where f: "trace (run w cfg s) = trace (crawl w cfg 1 0 s) @ [f]"
    "registry_write_event f"
    using run_trace by blast
  have "count_saves [f] = 1" "count_found [f] = 0"
    using f(2) by (auto simp: count_saves_def count_found_def registry_write_event_def)
  with c f(1) show ?thesis by (simp add: count_saves_append count_found_append)
qed

lemma crawl_done: "\<not> page \<le> max_pages cfg \<Longrightarrow> crawl w cfg page consecutive_empty s = s"
  by (simp add: crawl.simps)

lemma crawl_empty_page:
  assumes "page \<le> max_pages cfg"
    and "fst (get_competitions_from_page w cfg page (emit (Page page) s)) = []"
  shows "\<exists>s'. trace s' = trace s @ [Page page, Requested (page_url page)]
              \<and> (crawl w cfg page consecutive_empty s = s'
                  \<or> (\<exists>ce'. crawl w cfg page consecutive_empty s = crawl w cfg (page + 1) ce' s'))"
proof -
  obtain comps s1 where
    g: "get_competitions_from_page w cfg page (emit (Page page) s) = (comps, s1)"
    by (cases "get_competitions_from_page w cfg page (emit (Page page) s)")
  with assms(2) have nil: "comps = []" by simp
  define s2 where "s2 = s1\<lparr>pages_scraped := pages_scraped s1 + 1\<rparr>"
  from g have "s1 = snd (get_competitions_from_page w cfg page (emit (Page page) s))" by simp
  then have t: "trace s2 = trace s @ [Page page, Requested (page_url page)]"
    by (simp add: s2_def get_competitions_fields emit_def)
  have "crawl w cfg page consecutive_empty s =
      (if competitions_already_downloaded s2 > 0 then crawl w cfg (page + 1) 0 s2
       else if consecutive_empty + 1 \<ge> 3 then s2
       else crawl w cfg (page + 1) (consecutive_empty + 1) s2)"
    using assms(1) g nil by (simp add: crawl.simps[of w cfg page] s2_def)
  then have "crawl w cfg page consecutive_empty s = s2
      \<or> (\<exists>ce'. crawl w cfg page consecutive_empty s = crawl w cfg (page + 1) ce' s2)"
    by (metis (full_types))
  with t show ?thesis by blast
qed

lemma crawl_found_page:
  assumes "page \<le> max_pages cfg"
    and "fst (get_competitions_from_page w cfg page (emit (Page page) s)) = comps"
    and "comps \<noteq> []"
  shows "\<exists>s' evs f.
           trace s' = trace s @ [Page page, Requested (page_url page), Found (length comps)]
                        @ evs @ [f]
           \<and> registry_write_event f
           \<and> (\<forall>e \<in> set evs. transfer_event e \<or> (\<exists>c \<in> set comps. e = Competition (comp_id c)))
           \<and> crawl w cfg page consecutive_empty s = crawl w cfg (page + 1) 0 s'"
proof -
  obtain cs s1 where
    g: "get_competitions_from_page w cfg page (emit (Page page) s) = (cs, s1)"
    by (cases "get_competitions_from_page w cfg page (emit (Page page) s)")
  with assms(2) have cs: "cs = comps" by simp
  define s2 where "s2 = s1\<lparr>pages_scraped := pages_scraped s1 + 1\<rparr>"
  from g have "s1 = snd (get_competitions_from_page w cfg page (emit (Page page) s))" by simp
  then have t: "trace s2 = trace s @ [Page page, Requested (page_url page)]"
    by (simp add: s2_def get_competitions_fields emit_def)
  obtain evs f where p: "trace (process_page w cfg comps s2)
      = trace s2 @ Found (length comps) # evs @ [f]"
    and f: "registry_write_event f"
    and e: "\<forall>e \<in> set evs. transfer_event e \<or> (\<exists>c \<in> set comps. e = Competition (comp_id c))"
    using process_page_trace by blast
  have c: "crawl w cfg page consecutive_empty s = crawl w cfg (page + 1) 0 (process_page w cfg comps s2)"
    using assms(1,3) g cs by (simp add: crawl.simps[of w cfg page] s2_def)
  have "trace (process_page w cfg comps s2)
      = trace s @ [Page page, Requested (page_url page), Found (length comps)] @ evs @ [f]"
    using p t by simp
  with f e c show ?thesis by blast
qed

lemma no_failed_write:
  assumes ok: "\<forall>n. registry_write w n" and s: "RegistrySaveFailed \<notin> set (trace s)"
  shows "RegistrySaveFailed \<notin> set (trace (run w cfg s))"
proof -
  have sv: "\<And>t. RegistrySaveFailed \<notin> set (trace t) \<Longrightarrow>
                 RegistrySaveFailed \<notin> set (trace (save_registry w t))"
    using ok by (simp add: save_registry_def emit_def)
  have "RegistrySaveFailed \<notin> set (trace (crawl w cfg 1 0 s))"
  proof (rule crawl_invariant[where I = "\<lambda>t. RegistrySaveFailed \<notin> set (trace t)"])
    show "RegistrySaveFailed \<notin> set (trace s)" by (rule s)
  next
    fix page s comps s1
    assume a: "RegistrySaveFailed \<notin> set (trace s)"
      and g: "get_competitions_from_page w cfg page (emit (Page page) s) = (comps, s1)"
    from g have "s1 = snd (get_competitions_from_page w cfg page (emit (Page page) s))" by simp
    then have t: "trace s1 = trace s @ [Page page, Requested (page_url page)]"
      by (simp add: get_competitions_fields emit_def)
    with a show b: "RegistrySaveFailed \<notin> set (trace (s1\<lparr>pages_scraped := pages_scraped s1 + 1\<rparr>))"
      by simp
    let ?s2 = "s1\<lparr>pages_scraped := pages_scraped s1 + 1\<rparr>"
    let ?s3 = "(emit (Found (length comps)) ?s2)
                 \<lparr>competitions_found := competitions_found ?s2 + length comps\<rparr>"
    obtain evs where e: "trace (foldl (\<lambda>s c. process_competition w cfg c s) ?s3 comps)
        = trace ?s3 @ evs"
      "\<forall>e \<in> set evs. transfer_event e \<or> (\<exists>c \<in> set comps. e = Competition (comp_id c))"
      using process_all_trace by blast
    have "RegistrySaveFailed \<notin> set evs"
      using e(2) by (auto simp: transfer_event_def)
    with b e(1) have "RegistrySaveFailed
        \<notin> set (trace (foldl (\<lambda>s c. process_competition w cfg c s) ?s3 comps))"
      by (simp add: emit_def)
    then show "RegistrySaveFailed \<notin> set (trace (process_page w cfg comps ?s2))"
      unfolding process_page_def by (rule sv)
  qed
  then show ?thesis unfolding run_def by (rule sv)
qed

text \<open>
  Claim C2, amended. The registry is written after each page that gave at least one new
  competition, once its competitions are processed, and once more at the very end of the
  run; a page that gave none is followed by no write of its own. A write rewrites the
  file, or fails with an I/O error that is logged. In terms of the loop: past the last
  page it adds nothing; on a page whose extraction gives no competition it adds the
  page and its request to the trace and then stops or goes on to the next page; on a
  page that gives competitions it adds the page, its request, their count, the events
  of these competitions and one write, and goes on to the next page. The run ends with
  one more write. So the writes of a run are one more than its pages with new
  competitions, and none of them fails in a world where no write fails.
\<close>

theorem registry_flushed_after_found_pages:
  "(\<not> page \<le> max_pages cfg \<longrightarrow> crawl w cfg page consecutive_empty s = s)
   \<and> (page \<le> max_pages cfg
       \<and> fst (get_competitions_from_page w cfg page (emit (Page page) s)) = [] \<longrightarrow>
        (\<exists>s'. trace s' = trace s @ [Page page, Requested (page_url page)]
              \<and> (crawl w cfg page consecutive_empty s = s'
                  \<or> (\<exists>ce'. crawl w cfg page consecutive_empty s
                              = crawl w cfg (page + 1) ce' s'))))
   \<and> (page \<le> max_pages cfg
       \<and> fst (get_competitions_from_page w cfg page (emit (Page page) s)) = comps
       \<and> comps \<noteq> [] \<longrightarrow>
        (\<exists>s' evs f.
           trace s' = trace s @ [Page page, Requested (page_url page), Found (length comps)]
                        @ evs @ [f]
           \<and> registry_write_event f
           \<and> (\<forall>e \<in> set evs. transfer_event e \<or> (\<exists>c \<in> set comps. e = Competition (comp_id c)))
           \<and> crawl w cfg page consecutive_empty s = crawl w cfg (page + 1) 0 s'))
   \<and> (\<exists>f. trace (run w cfg s) = trace (crawl w cfg 1 0 s) @ [f] \<and> registry_write_event f)
   \<and> count_saves (trace (run w cfg s)) + count_found (trace s)
       = count_saves (trace s) + count_found (trace (run w cfg s)) + 1
   \<and> ((\<forall>n. registry_write w n) \<and> RegistrySaveFailed \<notin> set (trace s) \<longrightarrow>
        RegistrySaveFailed \<notin> set (trace (run w cfg s)))"
  using crawl_done[of page cfg w consecutive_empty s]
    crawl_empty_page[of page cfg w s consecutive_empty]
    crawl_found_page[of page cfg w s comps consecutive_empty]
    run_trace[of w cfg s] run_balance[of w cfg s] no_failed_write[of w s cfg]
  by blast

theorem registry_flushed_after_found_pages_witness:
  "\<not> 2 \<le> max_pages cfg_one_page
   \<and> crawl w_html cfg_one_page 2 0 s_fresh = s_fresh
   \<and> 1 \<le> max_pages cfg_one_page
   \<and> fst (get_competitions_from_page w_html cfg_one_page 1 (emit (Page 1) s_fresh)) = []
   \<and> trace (crawl w_html cfg_one_page 1 0 s_fresh) = [Page 1, Requested (page_url 1)]
   \<and> length (fst (get_competitions_from_page w_calendar cfg_one_page 1 (emit (Page 1) s_fresh)))
       = 1
   \<and> (\<exists>evs f. trace (crawl w_calendar cfg_one_page 1 0 s_fresh)
                 = [Page 1, Requested (page_url 1), Found 1] @ evs @ [f]
               \<and> registry_write_event f)
   \<and> count_found (trace (run w_calendar cfg_one_page s_fresh)) = 1
   \<and> count_saves (trace (run w_calendar cfg_one_page s_fresh)) = 2
   \<and> count_found (trace (run w_html cfg_one_page s_fresh)) = 0
   \<and> count_saves (trace (run w_html cfg_one_page s_fresh)) = 1
   \<and> RegistrySaveFailed \<notin> set (trace (run w_calendar cfg_one_page s_fresh))"
proof -
  note H = registry_flushed_after_found_pages [of 1 cfg_one_page w_html 0 s_fresh]
  note C = registry_flushed_after_found_pages [of 1 cfg_one_page w_calendar 0 s_fresh
      "fst (get_competitions_from_page w_calendar cfg_one_page 1 (emit (Page 1) s_fresh))"]
  note E = registry_flushed_after_found_pages [of 2 cfg_one_page w_html 0 s_fresh]
  have m: "\<not> 2 \<le> max_pages cfg_one_page" "1 \<le> max_pages cfg_one_page"
    by (simp_all add: cfg_one_page_def cfg_example_def)
  have e: "fst (get_competitions_from_page w_html cfg_one_page 1 (emit (Page 1) s_fresh)) = []"
    by code_simp
  have l: "length (fst (get_competitions_from_page w_calendar cfg_one_page 1
                          (emit (Page 1) s_fresh))) = 1"
    by code_simp
  have t0: "trace s_fresh = []" by (simp add: s_fresh_def)
  have done2: "\<And>w ce t. crawl w cfg_one_page 2 ce t = t"
    using m(1) by (simp add: crawl.simps)
  from E m(1) have a: "crawl w_html cfg_one_page 2 0 s_fresh = s_fresh" by blast
  from H m(2) e obtain s' where
    "trace s' = trace s_fresh @ [Page 1, Requested (page_url 1)]"
    "crawl w_html cfg_one_page 1 0 s_fresh = s'
     \<or> (\<exists>ce'. crawl w_html cfg_one_page 1 0 s_fresh = crawl w_html cfg_one_page (1 + 1) ce' s')"
    by blast
  then have b: "trace (crawl w_html cfg_one_page 1 0 s_fresh) = [Page 1, Requested (page_url 1)]"
    using done2 t0 by auto
  from l have ne: "fst (get_competitions_from_page w_calendar cfg_one_page 1
                          (emit (Page 1) s_fresh)) \<noteq> []"
    by auto
  from C m(2) ne obtain s'' evs f where
    "trace s'' = trace s_fresh @ [Page 1, Requested (page_url 1),
        Found (length (fst (get_competitions_from_page w_calendar cfg_one_page 1
                              (emit (Page 1) s_fresh))))] @ evs @ [f]"
    "registry_write_event f"
    "crawl w_calendar cfg_one_page 1 0 s_fresh = crawl w_calendar cfg_one_page (1 + 1) 0 s''"
    by blast
  then have c: "\<exists>evs f. trace (crawl w_calendar cfg_one_page 1 0 s_fresh)
                 = [Page 1, Requested (page_url 1), Found 1] @ evs @ [f]
               \<and> registry_write_event f"
    using done2 t0 l by auto
  have f: "count_found (trace (run w_calendar cfg_one_page s_fresh)) = 1"
    "count_found (trace (run w_html cfg_one_page s_fresh)) = 0"
    by code_simp+
  have z: "count_found (trace s_fresh) = 0" "count_saves (trace s_fresh) = 0"
    by (simp_all add: s_fresh_def count_found_def count_saves_def)
  from C f(1) z have s1: "count_saves (trace (run w_calendar cfg_one_page s_fresh)) = 2" by simp
  from H f(2) z have s2: "count_saves (trace (run w_html cfg_one_page s_fresh)) = 1" by simp
  have ok: "\<forall>n. registry_write w_calendar n" by (simp add: w_calendar_def answers_def)
  from C ok t0 have nf: "RegistrySaveFailed \<notin> set (trace (run w_calendar cfg_one_page s_fresh))"
    by simp
  from m a e b l c f s1 s2 nf show ?thesis by blast
qed

end
